theory Spec2Isabelle
  imports Complex_Main "HOL-Library.AList"
begin

section \<open>Floating-point values\<close>

text \<open>
  The pricing code computes with Python and numpy floats. A finite value other than zero is
  modelled by the real number it stands for (rounding, overflow and underflow are not
  modelled). The values that numpy produces instead of raising (\<open>inf\<close>, \<open>-inf\<close>, \<open>nan\<close>) are
  kept, and so is the sign of zero, which decides the sign of a quotient by zero:
  \<open>Fin 0\<close> is \<open>0.0\<close> and \<open>NZero\<close> is \<open>-0.0\<close>.
\<close>

datatype fl = Fin real | NZero | PInf | NInf | NaN

datatype error = ValueError | ZeroDivisionError

fun isnan :: "fl \<Rightarrow> bool" where
  "isnan NaN = True"
| "isnan _ = False"

fun is_inf :: "fl \<Rightarrow> bool" where
  "is_inf PInf = True"
| "is_inf NInf = True"
| "is_inf _ = False"

fun is_zero :: "fl \<Rightarrow> bool" where
  "is_zero (Fin x) = (x = 0)"
| "is_zero NZero = True"
| "is_zero _ = False"

fun signbit :: "fl \<Rightarrow> bool" where
  "signbit (Fin x) = (x < 0)"
| "signbit NZero = True"
| "signbit PInf = False"
| "signbit NInf = True"
| "signbit NaN = False"

fun val :: "fl \<Rightarrow> real" where
  "val (Fin x) = x"
| "val _ = 0"

definition signed_zero :: "bool \<Rightarrow> fl" where
  "signed_zero negative = (if negative then NZero else Fin 0)"

definition signed_inf :: "bool \<Rightarrow> fl" where
  "signed_inf negative = (if negative then NInf else PInf)"

fun fl_neg :: "fl \<Rightarrow> fl" where
  "fl_neg (Fin x) = (if x = 0 then NZero else Fin (- x))"
| "fl_neg NZero = Fin 0"
| "fl_neg PInf = NInf"
| "fl_neg NInf = PInf"
| "fl_neg NaN = NaN"

text \<open>
  IEEE 754 addition, round to nearest: infinities of opposite sign give \<open>nan\<close>, a sum of two
  zeros is \<open>-0.0\<close> only when both are, and an exact sum that cancels is \<open>0.0\<close>.
\<close>

definition fl_add :: "fl \<Rightarrow> fl \<Rightarrow> fl" where
  "fl_add a b =
     (if isnan a \<or> isnan b then NaN
      else if is_inf a \<and> is_inf b then (if signbit a = signbit b then a else NaN)
      else if is_inf a then a
      else if is_inf b then b
      else if is_zero a \<and> is_zero b then signed_zero (signbit a \<and> signbit b)
      else Fin (val a + val b))"

definition fl_sub :: "fl \<Rightarrow> fl \<Rightarrow> fl" where
  "fl_sub a b = fl_add a (fl_neg b)"

text \<open>Multiplication: zero times infinity is \<open>nan\<close>; the sign of the result is the product of the signs.\<close>

definition fl_mul :: "fl \<Rightarrow> fl \<Rightarrow> fl" where
  "fl_mul a b =
     (if isnan a \<or> isnan b then NaN
      else if (is_inf a \<and> is_zero b) \<or> (is_zero a \<and> is_inf b) then NaN
      else if is_inf a \<or> is_inf b then signed_inf (signbit a \<noteq> signbit b)
      else if is_zero a \<or> is_zero b then signed_zero (signbit a \<noteq> signbit b)
      else Fin (val a * val b))"

text \<open>
  numpy division: \<open>0/0\<close> and \<open>inf/inf\<close> give \<open>nan\<close>; otherwise a zero divisor gives an
  infinity and an infinite divisor a zero, with the product of the signs.
\<close>

definition fl_div :: "fl \<Rightarrow> fl \<Rightarrow> fl" where
  "fl_div a b =
     (if isnan a \<or> isnan b then NaN
      else if (is_inf a \<and> is_inf b) \<or> (is_zero a \<and> is_zero b) then NaN
      else if is_inf a \<or> is_zero b then signed_inf (signbit a \<noteq> signbit b)
      else if is_inf b \<or> is_zero a then signed_zero (signbit a \<noteq> signbit b)
      else Fin (val a / val b))"

text \<open>\<open>np.log\<close> of a Python float.\<close>

definition np_log :: "real \<Rightarrow> fl" where
  "np_log x = (if 0 < x then Fin (ln x) else if x = 0 then NInf else NaN)"

section \<open>The standard normal distribution\<close>

text \<open>
  \<open>scipy.stats.norm.pdf\<close> and \<open>scipy.stats.norm.cdf\<close> are library code: the density and the
  distribution function of the standard normal distribution. The distribution function is
  given by its power series around zero,
  \<open>1/2 + (1/sqrt (2 pi)) * (\<Sum>k. (-1)^k x^(2k+1) / (2^k k! (2k+1)))\<close>.
\<close>

definition std_normal_pdf :: "real \<Rightarrow> real" where
  "std_normal_pdf x = exp (- (x\<^sup>2) / 2) / sqrt (2 * pi)"

definition gauss_coeff :: "nat \<Rightarrow> real" where
  "gauss_coeff n =
     (if even n then 0
      else (- 1) ^ ((n - 1) div 2) / (2 ^ ((n - 1) div 2) * fact ((n - 1) div 2) * real n))"

definition gauss_int :: "real \<Rightarrow> real" where
  "gauss_int x = (\<Sum>n. gauss_coeff n * x ^ n)"

definition std_normal_cdf :: "real \<Rightarrow> real" where
  "std_normal_cdf x = 1 / 2 + gauss_int x / sqrt (2 * pi)"

fun norm_pdf :: "fl \<Rightarrow> fl" where
  "norm_pdf (Fin x) = Fin (std_normal_pdf x)"
| "norm_pdf NZero = Fin (std_normal_pdf 0)"
| "norm_pdf PInf = Fin 0"
| "norm_pdf NInf = Fin 0"
| "norm_pdf NaN = NaN"

fun norm_cdf :: "fl \<Rightarrow> fl" where
  "norm_cdf (Fin x) = Fin (std_normal_cdf x)"
| "norm_cdf NZero = Fin (std_normal_cdf 0)"
| "norm_cdf PInf = Fin 1"
| "norm_cdf NInf = Fin 0"
| "norm_cdf NaN = NaN"

section \<open>Black-Scholes price and Greeks (src/models/black_scholes.py)\<close>

text \<open>
  Spot, strike, time and rate are finite floats, their zero being \<open>0.0\<close>. The volatility is a
  float value of its own: \<open>-0.0 == 0\<close> holds in Python, and the sign of a zero volatility is
  the sign of the divisor \<open>sigma * np.sqrt(T)\<close>. Every sum, product and quotient of the source
  is the float operation; \<open>exp\<close>, \<open>sqrt\<close> and \<open>ln\<close> are taken at finite arguments.
\<close>

definition bs_d1 :: "real \<Rightarrow> real \<Rightarrow> real \<Rightarrow> real \<Rightarrow> fl \<Rightarrow> fl" where
  "bs_d1 S K T r sigma =
     fl_div (fl_add (np_log (S / K))
                    (fl_mul (fl_add (Fin r) (fl_mul (Fin 0.5) (fl_mul sigma sigma))) (Fin T)))
            (fl_mul sigma (Fin (sqrt T)))"

definition bs_d2 :: "real \<Rightarrow> real \<Rightarrow> real \<Rightarrow> real \<Rightarrow> fl \<Rightarrow> fl" where
  "bs_d2 S K T r sigma = fl_sub (bs_d1 S K T r sigma) (fl_mul sigma (Fin (sqrt T)))"

text \<open>The value of \<open>d1\<close> where every operand is finite and the divisor is not zero.\<close>

definition d1_real :: "real \<Rightarrow> real \<Rightarrow> real \<Rightarrow> real \<Rightarrow> real \<Rightarrow> real" where
  "d1_real S K T r sigma = (ln (S / K) + (r + 0.5 * sigma\<^sup>2) * T) / (sigma * sqrt T)"


text \<open>
  \<open>S / K\<close> is a division of Python floats, which raises \<open>ZeroDivisionError\<close> for \<open>K = 0\<close>;
  the division by \<open>sigma * np.sqrt(T)\<close> is a numpy division, which does not raise.
\<close>

definition black_scholes_price ::
    "real \<Rightarrow> real \<Rightarrow> real \<Rightarrow> real \<Rightarrow> fl \<Rightarrow> string \<Rightarrow> error + fl" where
  "black_scholes_price S K T r sigma option_type =
     (if T \<le> 0 then
        Inr (Fin (if option_type = ''call'' then max 0 (S - K) else max 0 (K - S)))
      else if K = 0 then Inl ZeroDivisionError
      else
        let d1 = bs_d1 S K T r sigma;
            d2 = bs_d2 S K T r sigma
        in if option_type = ''call'' then
             Inr (fl_sub (fl_mul (Fin S) (norm_cdf d1))
                         (fl_mul (fl_mul (Fin K) (Fin (exp (- r * T)))) (norm_cdf d2)))
           else if option_type = ''put'' then
             Inr (fl_sub (fl_mul (fl_mul (Fin K) (Fin (exp (- r * T)))) (norm_cdf (fl_neg d2)))
                         (fl_mul (Fin S) (norm_cdf (fl_neg d1))))
           else Inl ValueError)"

record greeks =
  Delta :: fl
  Gamma :: fl
  Vega :: fl
  Theta :: fl
  Rho :: fl

definition black_scholes_greeks ::
    "real \<Rightarrow> real \<Rightarrow> real \<Rightarrow> real \<Rightarrow> fl \<Rightarrow> string \<Rightarrow> error + greeks" where
  "black_scholes_greeks S K T r sigma option_type =
     (if T \<le> 0 then
        Inr \<lparr>Delta = Fin 0, Gamma = Fin 0, Vega = Fin 0, Theta = Fin 0, Rho = Fin 0\<rparr>
      else if K = 0 then Inl ZeroDivisionError
      else
        let d1 = bs_d1 S K T r sigma;
            d2 = bs_d2 S K T r sigma;
            delta = (if option_type = ''call'' then norm_cdf d1
                     else fl_sub (norm_cdf d1) (Fin 1));
            gamma = fl_div (norm_pdf d1) (fl_mul (fl_mul (Fin S) sigma) (Fin (sqrt T)));
            vega = fl_mul (fl_mul (Fin S) (norm_pdf d1)) (Fin (sqrt T));
            theta = fl_sub
                      (fl_div (fl_mul (fl_mul (fl_neg (Fin S)) (norm_pdf d1)) sigma)
                              (Fin (2 * sqrt T)))
                      (fl_mul (fl_mul (fl_mul (Fin r) (Fin K)) (Fin (exp (- r * T))))
                              (norm_cdf (if option_type = ''call'' then d2 else fl_neg d2)));
            rho = fl_mul (fl_mul (fl_mul (Fin K) (Fin T)) (Fin (exp (- r * T))))
                         (norm_cdf (if option_type = ''call'' then d2 else fl_neg d2))
        in Inr \<lparr>Delta = delta, Gamma = gamma, Vega = vega, Theta = theta, Rho = rho\<rparr>)"

section \<open>Implied volatility surface (src/ui/visualizations/volatility_surface.py)\<close>

text \<open>
  A row of a call or put table is its strike and its implied volatility. The expiration
  keys of \<open>options_data\<close> are the dates the key strings parse to, as day ordinals, in the
  dictionary's iteration order; \<open>datetime.now()\<close> is the parameter \<open>today\<close>, a day ordinal
  with its fraction of a day. \<open>(expiry - today).days\<close> is the floor of the difference.
\<close>

type_synonym row = "real \<times> fl"

record chain =
  calls :: "row list"
  puts :: "row list"

type_synonym iv_table = "((int \<times> real) \<times> fl) list"

text \<open>\<open>iv > 0\<close> on a float.\<close>

fun fl_pos :: "fl \<Rightarrow> bool" where
  "fl_pos (Fin x) = (0 < x)"
| "fl_pos NZero = False"
| "fl_pos PInf = True"
| "fl_pos NInf = False"
| "fl_pos NaN = False"

definition out_of_range :: "(real \<times> real) option \<Rightarrow> real \<Rightarrow> bool" where
  "out_of_range strike_range strike =
     (case strike_range of None \<Rightarrow> False
      | Some (lo, hi) \<Rightarrow> strike < lo \<or> strike > hi)"

definition add_row ::
    "(real \<times> real) option \<Rightarrow> int \<Rightarrow> real set \<times> iv_table \<Rightarrow> row \<Rightarrow> real set \<times> iv_table" where
  "add_row strike_range days st rw =
     (let strike = fst rw; iv = snd rw in
      if out_of_range strike_range strike then st
      else if \<not> isnan iv \<and> fl_pos iv then
        (insert strike (fst st), AList.update (days, strike) iv (snd st))
      else st)"

definition add_expiration ::
    "real \<Rightarrow> (real \<times> real) option \<Rightarrow> real set \<times> int list \<times> iv_table \<Rightarrow> int \<times> chain
       \<Rightarrow> real set \<times> int list \<times> iv_table" where
  "add_expiration today strike_range st e =
     (let all_strikes = fst st; all_days = fst (snd st); iv_data = snd (snd st);
          days = \<lfloor>of_int (fst e) - today\<rfloor>
      in if days \<le> 0 then st
         else
           let r = foldl (\<lambda>acc options. foldl (add_row strike_range days) acc options)
                     (all_strikes, iv_data) [calls (snd e), puts (snd e)]
           in (fst r, all_days @ [days], snd r))"

definition extract_quotes ::
    "real \<Rightarrow> (int \<times> chain) list \<Rightarrow> (real \<times> real) option \<Rightarrow> real set \<times> int list \<times> iv_table" where
  "extract_quotes today options_data strike_range =
     foldl (add_expiration today strike_range) ({}, [], []) options_data"

text \<open>Python's \<open>min\<close> and \<open>max\<close> raise \<open>ValueError\<close> on an empty sequence.\<close>

fun py_min :: "'a::linorder list \<Rightarrow> error + 'a" where
  "py_min [] = Inl ValueError"
| "py_min (x # xs) = Inr (foldl min x xs)"

fun py_max :: "'a::linorder list \<Rightarrow> error + 'a" where
  "py_max [] = Inl ValueError"
| "py_max (x # xs) = Inr (foldl max x xs)"

text \<open>\<open>min(xs, key=f)\<close>: the first element whose key is minimal.\<close>

fun py_min_key :: "('a \<Rightarrow> real) \<Rightarrow> 'a list \<Rightarrow> error + 'a" where
  "py_min_key f [] = Inl ValueError"
| "py_min_key f (x # xs) = Inr (foldl (\<lambda>best y. if f y < f best then y else best) x xs)"

text \<open>
  \<open>np.linspace(start, stop, num)\<close> is numpy's, and computes in floating point: it returns
  \<open>num\<close> values, the first of which is \<open>start\<close>; for \<open>num > 1\<close> numpy assigns \<open>stop\<close> to the
  last one; when \<open>start\<close> and \<open>stop\<close> are equal the step is zero and every value is
  \<open>start\<close>. The values in between are \<open>start + i * step\<close> after rounding. Only the four
  facts of \<open>linspace_like\<close> are fixed here, and \<open>np_linspace\<close> is a function that has them:
  what is proved of the grid holds whatever the rounding of the inner points is.
\<close>

definition linspace_like :: "(real \<Rightarrow> real \<Rightarrow> nat \<Rightarrow> real list) \<Rightarrow> bool" where
  "linspace_like f =
     (\<forall>start stop num.
        length (f start stop num) = num \<and>
        f start stop (Suc num) ! 0 = start \<and>
        f start stop (Suc (Suc num)) ! Suc num = stop \<and>
        f start start num = replicate num start)"

definition np_linspace :: "real \<Rightarrow> real \<Rightarrow> nat \<Rightarrow> real list" where
  "np_linspace = (SOME f. linspace_like f)"

text \<open>\<open>np.mean\<close> of a list; for the empty list numpy returns \<open>nan\<close>.\<close>

definition np_mean :: "fl list \<Rightarrow> fl" where
  "np_mean vs = fl_div (foldl fl_add (Fin 0) vs) (Fin (real (length vs)))"

fun sequence :: "(error + 'a) list \<Rightarrow> error + 'a list" where
  "sequence [] = Inr []"
| "sequence (x # xs) =
     (case x of Inl e \<Rightarrow> Inl e
      | Inr v \<Rightarrow> (case sequence xs of Inl e \<Rightarrow> Inl e | Inr vs \<Rightarrow> Inr (v # vs)))"

text \<open>The body of the double loop: the value of the surface at grid node \<open>(d, s)\<close>.\<close>

definition node_value ::
    "int list \<Rightarrow> real list \<Rightarrow> iv_table \<Rightarrow> real \<Rightarrow> real \<Rightarrow> real \<Rightarrow> error + fl" where
  "node_value all_days all_strikes iv_data current_price d s =
     (case py_min_key (\<lambda>x. \<bar>of_int x - d\<bar>) all_days of
        Inl e \<Rightarrow> Inl e
      | Inr closest_day \<Rightarrow>
          (case py_min_key (\<lambda>x. \<bar>x - s\<bar>) all_strikes of
             Inl e \<Rightarrow> Inl e
           | Inr closest_strike \<Rightarrow>
               (case map_of iv_data (closest_day, closest_strike) of
                  Some v \<Rightarrow> Inr v
                | None \<Rightarrow>
                    (case py_min_key (\<lambda>x. \<bar>x - current_price\<bar>) all_strikes of
                       Inl e \<Rightarrow> Inl e
                     | Inr atm_strike \<Rightarrow>
                         (case map_of iv_data (closest_day, atm_strike) of
                            Some v \<Rightarrow> Inr v
                          | None \<Rightarrow>
                              Inr (np_mean (map snd
                                     (filter (\<lambda>kv. fst (fst kv) = closest_day) iv_data))))))))"

definition interpolate_volatility_surface ::
    "real \<Rightarrow> (int \<times> chain) list \<Rightarrow> real \<Rightarrow> (real \<times> real) option
       \<Rightarrow> error + (real list list \<times> real list list \<times> fl list list)" where
  "interpolate_volatility_surface today options_data current_price strike_range =
     (let ex = extract_quotes today options_data strike_range;
          all_days = sort (fst (snd ex));
          all_strikes = sorted_list_of_set (fst ex);
          iv_data = snd (snd ex)
      in case (case strike_range of
                 Some r \<Rightarrow> Inr r
               | None \<Rightarrow>
                   (case py_min all_strikes of
                      Inl e \<Rightarrow> Inl e
                    | Inr lo \<Rightarrow>
                        (case py_max all_strikes of Inl e \<Rightarrow> Inl e | Inr hi \<Rightarrow> Inr (lo, hi)))) of
           Inl e \<Rightarrow> Inl e
         | Inr rng \<Rightarrow>
             let strike_points = 50;
                 day_points = min 50 (length all_days * 5);
                 strikes = np_linspace (fst rng) (snd rng) strike_points
             in case py_min all_days of
                  Inl e \<Rightarrow> Inl e
                | Inr dmin \<Rightarrow>
                    (case py_max all_days of
                       Inl e \<Rightarrow> Inl e
                     | Inr dmax \<Rightarrow>
                         let days = np_linspace (of_int dmin) (of_int dmax) day_points in
                         (case sequence (map (\<lambda>d. sequence (map (\<lambda>s.
                                   node_value all_days all_strikes iv_data current_price d s)
                                 strikes)) days) of
                            Inl e \<Rightarrow> Inl e
                          | Inr volatility_surface \<Rightarrow>
                              Inr (replicate (length strikes) days,
                                   map (\<lambda>s. replicate (length days) s) strikes,
                                   transpose volatility_surface))))"

section \<open>Surface reconstruction as the spec words it (section 4.3)\<close>

text \<open>
  The nearest candidate of a list by a distance: an element of the list whose distance is
  minimal, the first such in the order of the list. The node value: the direct quote at
  \<open>(d*, s*)\<close>, else the quote at \<open>(d*, atmStrike)\<close>, else the mean of the quotes of day \<open>d*\<close>.
\<close>

definition is_nearest :: "('a \<Rightarrow> real) \<Rightarrow> 'a list \<Rightarrow> 'a \<Rightarrow> bool" where
  "is_nearest key xs m =
     (\<exists>i<length xs. xs ! i = m \<and> (\<forall>j<length xs. key m \<le> key (xs ! j)) \<and>
        (\<forall>j<i. key m < key (xs ! j)))"

definition day_values :: "iv_table \<Rightarrow> int \<Rightarrow> fl list" where
  "day_values iv_data day = map snd (filter (\<lambda>kv. fst (fst kv) = day) iv_data)"

definition spec_node :: "iv_table \<Rightarrow> int \<Rightarrow> real \<Rightarrow> real \<Rightarrow> fl" where
  "spec_node iv_data dstar sstar atm =
     (case map_of iv_data (dstar, sstar) of
        Some v \<Rightarrow> v
      | None \<Rightarrow>
          (case map_of iv_data (dstar, atm) of
             Some v \<Rightarrow> v
           | None \<Rightarrow> np_mean (day_values iv_data dstar)))"

text \<open>Every stored quote belongs to a registered day and a registered strike.\<close>

definition quotes_ok :: "int set \<Rightarrow> real set \<times> iv_table \<Rightarrow> bool" where
  "quotes_ok ds st =
     (finite (fst st) \<and> (\<forall>kv\<in>set (snd st). fst (fst kv) \<in> ds \<and> snd (fst kv) \<in> fst st))"

text \<open>
  A row is admitted when the loop body stores it. The quote of a table at a strike is the
  implied volatility of its last admitted row with that strike; puts are read after calls.
\<close>

definition admitted :: "(real \<times> real) option \<Rightarrow> row \<Rightarrow> bool" where
  "admitted strike_range rw =
     (\<not> out_of_range strike_range (fst rw) \<and> \<not> isnan (snd rw) \<and> fl_pos (snd rw))"

definition last_quote :: "(real \<times> real) option \<Rightarrow> real \<Rightarrow> row list \<Rightarrow> fl option" where
  "last_quote strike_range k rows =
     (let qs = filter (\<lambda>rw. fst rw = k \<and> admitted strike_range rw) rows
      in if qs = [] then None else Some (snd (last qs)))"

definition chain_quote :: "(real \<times> real) option \<Rightarrow> real \<Rightarrow> chain \<Rightarrow> fl option \<Rightarrow> fl option" where
  "chain_quote strike_range k ch old =
     (case last_quote strike_range k (puts ch) of
        Some v \<Rightarrow> Some v
      | None \<Rightarrow> (case last_quote strike_range k (calls ch) of Some v \<Rightarrow> Some v | None \<Rightarrow> old))"

text \<open>
  Example data: one expiration with one quote; two expirations, the second without a usable
  quote; two expirations with quotes at different strikes; one expiration whose call and
  put tables both quote the strike 100; two expiration keys that parse to the same date
  (as \<open>2025-01-10\<close> and \<open>2025-1-10\<close> do).
\<close>

definition single_quote_data :: "(int \<times> chain) list" where
  "single_quote_data = [(110, \<lparr>calls = [(100, Fin (1/5))], puts = []\<rparr>)]"

definition empty_day_data :: "(int \<times> chain) list" where
  "empty_day_data =
     [(110, \<lparr>calls = [(100, Fin (1/5)), (110, NaN)], puts = [(100, Fin (1/4))]\<rparr>),
      (120, \<lparr>calls = [(100, NaN)], puts = []\<rparr>)]"


definition collision_data :: "(int \<times> chain) list" where
  "collision_data =
     [(110, \<lparr>calls = [(100, Fin (1/5)), (120, Fin (3/10))], puts = [(100, Fin (1/4))]\<rparr>)]"

definition same_date_data :: "(int \<times> chain) list" where
  "same_date_data =
     [(110, \<lparr>calls = [(100, Fin (1/5))], puts = [(100, Fin (1/4))]\<rparr>),
      (110, \<lparr>calls = [(100, Fin (3/10))], puts = []\<rparr>)]"

section \<open>Binomial lattice (spec section 4.2)\<close>


text \<open>Modelled from the spec: the payoff of step 2, \<open>max(0, S_i - strike)\<close> for a call and
  \<open>max(0, strike - S_i)\<close> for a put (binomial_pricing.py is missing).\<close>

definition intrinsic :: "string \<Rightarrow> real \<Rightarrow> real \<Rightarrow> real" where
  "intrinsic option_type K s =
     (if option_type = ''call'' then max 0 (s - K) else max 0 (K - s))"

text \<open>Modelled from the spec: one layer of the backward induction of step 3; node \<open>i\<close> of
  layer \<open>step\<close> has the price \<open>spot * u^i * d^(step - i)\<close> (binomial_pricing.py is missing).\<close>

definition backward_layer ::
    "bool \<Rightarrow> string \<Rightarrow> real \<Rightarrow> real \<Rightarrow> real \<Rightarrow> real \<Rightarrow> real \<Rightarrow> real \<Rightarrow> nat \<Rightarrow> real list \<Rightarrow> real list" where
  "backward_layer american option_type S K u d disc p step V =
     map (\<lambda>i. let continuation = disc * (p * V ! (i + 1) + (1 - p) * V ! i)
              in if american
                 then max continuation (intrinsic option_type K (S * u ^ i * d ^ (step - i)))
                 else continuation)
         [0..<step + 1]"





section \<open>Auxiliary functions for the analysis of the normal distribution\<close>

definition q :: "real \<Rightarrow> real" where
  "q x = inverse (1 + x\<^sup>2)"

definition gauss_aux :: "(nat \<Rightarrow> real) \<Rightarrow> nat \<Rightarrow> real \<Rightarrow> real" where
  "gauss_aux x N t =
     (gauss_int t)\<^sup>2 + (2 / real N) * (\<Sum>k<N. exp (- (t\<^sup>2 * (1 + (x k)\<^sup>2)) / 2) * q (x k))"


section \<open>Properties of the standard normal distribution\<close>

text \<open>
  The series converges everywhere, its sum is odd and has the derivative
  \<open>exp (- x^2 / 2)\<close>. Comparing it with Riemann sums of \<open>exp (- t^2 (1 + x^2) / 2) / (1 + x^2)\<close>
  over \<open>x\<close> in [0, 1] bounds its square by \<open>pi / 2\<close> from above and by
  \<open>pi / 2 - 2 exp (- x^2 / 2)\<close> from below, which gives the range of the distribution
  function and the decay of its tail.
\<close>

lemma gauss_term_sums:
  "(\<lambda>k. (- 1) ^ k * x ^ (2 * k + 1) / (2 ^ k * fact k * real (2 * k + 1))) sums
     (\<Sum>k. (- 1) ^ k * x ^ (2 * k + 1) / (2 ^ k * fact k * real (2 * k + 1)))"
proof -
  let ?g = "\<lambda>k::nat. (- 1) ^ k * x ^ (2 * k + 1) / (2 ^ k * fact k * real (2 * k + 1))"
  have bound: "norm (?g k) \<le> \<bar>x\<bar> * (inverse (fact k) * (x\<^sup>2 / 2) ^ k)" for k
  proof -
    have "norm (?g k) = \<bar>x\<bar> ^ (2 * k + 1) / (2 ^ k * fact k * real (2 * k + 1))"
      by (simp add: abs_mult power_abs abs_divide)
    also have "\<dots> \<le> \<bar>x\<bar> ^ (2 * k + 1) / (2 ^ k * fact k * 1)"
      by (intro divide_left_mono mult_left_mono mult_pos_pos) auto
    also have "\<dots> = \<bar>x\<bar> * (inverse (fact k) * (x\<^sup>2 / 2) ^ k)"
    proof -
      have "\<bar>x\<bar> ^ (2 * k) = (x\<^sup>2) ^ k"
        by (metis power_mult power2_abs)
      then show ?thesis
        by (simp add: power_divide field_simps)
    qed
    finally show ?thesis .
  qed
  have "summable (\<lambda>k. \<bar>x\<bar> * (inverse (fact k) * (x\<^sup>2 / 2) ^ k))"
    by (intro summable_mult summable_exp)
  then have "summable ?g"
    by (rule summable_comparison_test') (rule bound)
  then show ?thesis by (rule summable_sums)
qed

lemma gauss_coeff_sums:
  "(\<lambda>n. gauss_coeff n * x ^ n) sums
     (\<Sum>k. (- 1) ^ k * x ^ (2 * k + 1) / (2 ^ k * fact k * real (2 * k + 1)))"
proof -
  let ?g = "\<lambda>k::nat. (- 1) ^ k * x ^ (2 * k + 1) / (2 ^ k * fact k * real (2 * k + 1))"
  have eq: "gauss_coeff n * x ^ n = (if even n then 0 else ?g ((n - 1) div 2))" for n
  proof (cases "even n")
    case True
    then show ?thesis by (simp add: gauss_coeff_def)
  next
    case False
    then obtain k where n: "n = 2 * k + 1" by (auto elim: oddE)
    show ?thesis by (simp add: n gauss_coeff_def)
  qed
  show ?thesis
    unfolding eq by (rule sums_if') (rule gauss_term_sums)
qed

lemma summable_gauss: "summable (\<lambda>n. gauss_coeff n * x ^ n)"
  using gauss_coeff_sums by (rule sums_summable)

lemma gauss_int_minus: "gauss_int (- x) = - gauss_int x"
proof -
  have "gauss_coeff n * (- x) ^ n = - (gauss_coeff n * x ^ n)" for n
    by (cases "even n") (simp_all add: gauss_coeff_def)
  then have "gauss_int (- x) = (\<Sum>n. - (gauss_coeff n * x ^ n))"
    by (simp add: gauss_int_def)
  also have "\<dots> = - gauss_int x"
    unfolding gauss_int_def by (rule suminf_minus) (rule summable_gauss)
  finally show ?thesis .
qed

lemma gauss_int_zero: "gauss_int 0 = 0"
  using gauss_int_minus [of 0] by simp

lemma std_normal_cdf_minus: "std_normal_cdf (- x) = 1 - std_normal_cdf x"
  by (simp add: std_normal_cdf_def gauss_int_minus)

lemma diffs_gauss_coeff:
  "diffs gauss_coeff n = (if even n then (- 1) ^ (n div 2) / (2 ^ (n div 2) * fact (n div 2)) else 0)"
  by (simp add: diffs_def gauss_coeff_def)

lemma diffs_gauss_sums: "(\<lambda>n. diffs gauss_coeff n * x ^ n) sums exp (- (x\<^sup>2) / 2)"
proof -
  let ?f = "\<lambda>k::nat. (- (x\<^sup>2) / 2) ^ k /\<^sub>R fact k"
  have f: "?f sums exp (- (x\<^sup>2) / 2)" by (rule exp_converges)
  have z: "(\<lambda>k::nat. 0::real) sums 0" by simp
  have eq: "diffs gauss_coeff n * x ^ n = (if even n then ?f (n div 2) else 0)" for n
  proof (cases "even n")
    case True
    then obtain k where n: "n = 2 * k" by (auto elim: evenE)
    have "(- (x\<^sup>2) / 2) ^ k = (- 1) ^ k * x ^ (2 * k) / 2 ^ k"
      by (simp add: power_mult power_divide power_minus [of "x\<^sup>2 / 2"])
    then show ?thesis
      by (simp add: diffs_gauss_coeff n field_simps)
  next
    case False
    then show ?thesis by (simp add: diffs_gauss_coeff)
  qed
  show ?thesis
    unfolding eq using sums_if [OF z f] by simp
qed

lemma DERIV_gauss_int: "DERIV gauss_int x :> exp (- (x\<^sup>2) / 2)"
proof -
  have "DERIV (\<lambda>x. \<Sum>n. gauss_coeff n * x ^ n) x :> (\<Sum>n. diffs gauss_coeff n * x ^ n)"
    by (rule termdiffs_strong_converges_everywhere) (rule summable_gauss)
  moreover have "(\<Sum>n. diffs gauss_coeff n * x ^ n) = exp (- (x\<^sup>2) / 2)"
    using diffs_gauss_sums by (rule sums_unique [symmetric])
  moreover have "gauss_int = (\<lambda>x. \<Sum>n. gauss_coeff n * x ^ n)"
    by (rule ext) (simp add: gauss_int_def)
  ultimately show ?thesis by simp
qed

lemma deriv_bound_above:
  fixes F :: "real \<Rightarrow> real"
  assumes ab: "a \<le> b"
    and der: "\<And>x. a \<le> x \<Longrightarrow> x \<le> b \<Longrightarrow> DERIV F x :> f x"
    and le: "\<And>x. a \<le> x \<Longrightarrow> x \<le> b \<Longrightarrow> f x \<le> c"
  shows "F b - F a \<le> c * (b - a)"
proof -
  have "c * a - F a \<le> c * b - F b"
  proof (rule DERIV_nonneg_imp_nondecreasing [OF ab])
    fix x assume x: "a \<le> x" "x \<le> b"
    have "DERIV (\<lambda>x. c * x - F x) x :> c - f x"
      by (auto intro!: derivative_eq_intros der x)
    moreover have "0 \<le> c - f x" using le [OF x] by simp
    ultimately show "\<exists>y. DERIV (\<lambda>x. c * x - F x) x :> y \<and> 0 \<le> y" by blast
  qed
  then show ?thesis by (simp add: algebra_simps)
qed

lemma deriv_bound_below:
  fixes F :: "real \<Rightarrow> real"
  assumes ab: "a \<le> b"
    and der: "\<And>x. a \<le> x \<Longrightarrow> x \<le> b \<Longrightarrow> DERIV F x :> f x"
    and le: "\<And>x. a \<le> x \<Longrightarrow> x \<le> b \<Longrightarrow> c \<le> f x"
  shows "c * (b - a) \<le> F b - F a"
proof -
  have "F a - c * a \<le> F b - c * b"
  proof (rule DERIV_nonneg_imp_nondecreasing [OF ab])
    fix x assume x: "a \<le> x" "x \<le> b"
    have "DERIV (\<lambda>x. F x - c * x) x :> f x - c"
      by (auto intro!: derivative_eq_intros der x)
    moreover have "0 \<le> f x - c" using le [OF x] by simp
    ultimately show "\<exists>y. DERIV (\<lambda>x. F x - c * x) x :> y \<and> 0 \<le> y" by blast
  qed
  then show ?thesis by (simp add: algebra_simps)
qed

text \<open>Riemann sums of an antitone derivative on a uniform partition of [0, t].\<close>

lemma antitone_riemann_sums:
  fixes F :: "real \<Rightarrow> real"
  assumes t: "0 \<le> t" and N: "0 < N"
    and der: "\<And>x. 0 \<le> x \<Longrightarrow> DERIV F x :> f x"
    and anti: "\<And>x y. 0 \<le> x \<Longrightarrow> x \<le> y \<Longrightarrow> f y \<le> f x"
  shows "(\<Sum>k<N. f (t * real (Suc k) / real N) * (t / real N)) \<le> F t - F 0"
    and "F t - F 0 \<le> (\<Sum>k<N. f (t * real k / real N) * (t / real N))"
proof -
  let ?p = "\<lambda>k::nat. t * real k / real N"
  have "(\<Sum>k<N. F (?p (Suc k)) - F (?p k)) = F (?p N) - F (?p 0)"
    by (rule sum_lessThan_telescope [of "\<lambda>k. F (?p k)"])
  then have tele: "(\<Sum>k<N. F (?p (Suc k)) - F (?p k)) = F t - F 0"
    using N by simp
  have mono: "?p k \<le> ?p (Suc k)" for k
    using t N by (simp add: divide_right_mono mult_left_mono)
  have nn: "0 \<le> ?p k" for k using t by simp
  have width: "?p (Suc k) - ?p k = t / real N" for k
    by (simp add: algebra_simps add_divide_distrib)
  have up: "F (?p (Suc k)) - F (?p k) \<le> f (?p k) * (t / real N)" for k
  proof -
    have "F (?p (Suc k)) - F (?p k) \<le> f (?p k) * (?p (Suc k) - ?p k)"
      by (rule deriv_bound_above [OF mono, where f = f])
         (use nn [of k] in \<open>auto intro: der anti\<close>)
    then show ?thesis by (simp only: width)
  qed
  have lo: "f (?p (Suc k)) * (t / real N) \<le> F (?p (Suc k)) - F (?p k)" for k
  proof -
    have "f (?p (Suc k)) * (?p (Suc k) - ?p k) \<le> F (?p (Suc k)) - F (?p k)"
      by (rule deriv_bound_below [OF mono, where f = f])
         (use nn [of k] in \<open>auto intro: der anti\<close>)
    then show ?thesis by (simp only: width)
  qed
  show "(\<Sum>k<N. f (?p (Suc k)) * (t / real N)) \<le> F t - F 0"
    unfolding tele [symmetric] by (rule sum_mono) (rule lo)
  show "F t - F 0 \<le> (\<Sum>k<N. f (?p k) * (t / real N))"
    unfolding tele [symmetric] by (rule sum_mono) (rule up)
qed

lemma exp_sq_antitone:
  fixes x y :: real
  assumes "0 \<le> x" "x \<le> y"
  shows "exp (- (y\<^sup>2) / 2) \<le> exp (- (x\<^sup>2) / 2)"
proof -
  have "x\<^sup>2 \<le> y\<^sup>2" using assms by (simp add: power_mono)
  then show ?thesis by simp
qed

lemma gauss_riemann:
  assumes t: "0 \<le> t" and N: "0 < N"
  shows "(\<Sum>k<N. exp (- ((t * real (Suc k) / real N)\<^sup>2) / 2) * (t / real N)) \<le> gauss_int t"
    and "gauss_int t \<le> (\<Sum>k<N. exp (- ((t * real k / real N)\<^sup>2) / 2) * (t / real N))"
  using antitone_riemann_sums [OF t N, of gauss_int "\<lambda>x. exp (- (x\<^sup>2) / 2)"]
        DERIV_gauss_int exp_sq_antitone
  by (simp_all add: gauss_int_zero)

lemma q_antitone:
  assumes "0 \<le> x" "x \<le> y"
  shows "q y \<le> q x"
proof -
  have "x\<^sup>2 \<le> y\<^sup>2" using assms by (simp add: power_mono)
  moreover have "0 < 1 + x\<^sup>2" by (simp add: add_pos_nonneg)
  ultimately show ?thesis unfolding q_def by (intro le_imp_inverse_le) auto
qed

lemma arctan_riemann:
  assumes N: "0 < N"
  shows "(\<Sum>k<N. q (real (Suc k) / real N) * (1 / real N)) \<le> pi / 4"
    and "pi / 4 \<le> (\<Sum>k<N. q (real k / real N) * (1 / real N))"
  using antitone_riemann_sums [OF _ N, of 1 arctan q] DERIV_arctan q_antitone
  by (simp_all add: arctan_one q_def)

lemma q_sum_shift:
  assumes N: "0 < N"
  shows "(\<Sum>k<N. q (real k / real N)) = (\<Sum>k<N. q (real (Suc k) / real N)) + 1 / 2"
proof -
  have "(\<Sum>k<N. q (real (Suc k) / real N) - q (real k / real N)) = q (real N / real N) - q 0"
    using sum_lessThan_telescope [of "\<lambda>k. q (real k / real N)" N] by simp
  also have "\<dots> = - (1 / 2)" using N by (simp add: q_def)
  finally show ?thesis by (simp add: sum_subtractf)
qed

lemma q_left_sum_le:
  assumes N: "0 < N"
  shows "(\<Sum>k<N. q (real k / real N)) / real N \<le> pi / 4 + 1 / (2 * real N)"
proof -
  have "(\<Sum>k<N. q (real k / real N)) / real N =
        (\<Sum>k<N. q (real (Suc k) / real N) * (1 / real N)) + 1 / (2 * real N)"
    by (simp add: q_sum_shift [OF N] add_divide_distrib sum_divide_distrib del: of_nat_Suc)
  then show ?thesis using arctan_riemann(1) [OF N] by simp
qed


lemma DERIV_gauss_aux_term:
  "DERIV (\<lambda>t. exp (- (t\<^sup>2 * (1 + y\<^sup>2)) / 2) * q y) t :>
     - (t * exp (- (t\<^sup>2) / 2) * exp (- ((t * y)\<^sup>2) / 2))"
proof -
  define c where "c = 1 + y\<^sup>2"
  have pos: "c \<noteq> 0"
    unfolding c_def by (metis add_pos_nonneg less_numeral_extra(1) less_irrefl zero_le_power2)
  have cq: "c * q y = 1"
    using pos by (simp add: q_def c_def)
  have d: "DERIV (\<lambda>t. exp (- (t\<^sup>2 * c) / 2) * q y) t :>
          exp (- (t\<^sup>2 * c) / 2) * (- (t * c)) * q y"
    by (auto intro!: derivative_eq_intros)
  have "- (t\<^sup>2 * c) / 2 = - (t\<^sup>2) / 2 + - ((t * y)\<^sup>2) / 2"
    by (simp add: c_def power_mult_distrib field_simps)
  then have e: "exp (- (t\<^sup>2 * c) / 2) = exp (- (t\<^sup>2) / 2) * exp (- ((t * y)\<^sup>2) / 2)"
    by (simp only: exp_add)
  have "exp (- (t\<^sup>2 * c) / 2) * (- (t * c)) * q y = - (t * exp (- (t\<^sup>2 * c) / 2)) * (c * q y)"
    by (simp add: mult_ac)
  also have "\<dots> = - (t * exp (- (t\<^sup>2) / 2) * exp (- ((t * y)\<^sup>2) / 2))"
    by (simp only: cq e mult_1_right mult.assoc)
  finally show ?thesis
    using d by (simp only: c_def)
qed

lemma DERIV_gauss_aux:
  "DERIV (gauss_aux x N) t :>
     2 * exp (- (t\<^sup>2) / 2) *
       (gauss_int t - (\<Sum>k<N. exp (- ((t * x k)\<^sup>2) / 2) * (t / real N)))"
proof -
  have s: "DERIV (\<lambda>t. \<Sum>k<N. exp (- (t\<^sup>2 * (1 + (x k)\<^sup>2)) / 2) * q (x k)) t :>
          (\<Sum>k<N. - (t * exp (- (t\<^sup>2) / 2) * exp (- ((t * x k)\<^sup>2) / 2)))"
    by (rule DERIV_sum) (rule DERIV_gauss_aux_term)
  have p: "DERIV (\<lambda>t. (gauss_int t)\<^sup>2) t :> 2 * gauss_int t * exp (- (t\<^sup>2) / 2)"
    by (auto intro!: derivative_eq_intros DERIV_gauss_int)
  have "DERIV (\<lambda>t. (gauss_int t)\<^sup>2 +
            (2 / real N) * (\<Sum>k<N. exp (- (t\<^sup>2 * (1 + (x k)\<^sup>2)) / 2) * q (x k))) t :>
          2 * gauss_int t * exp (- (t\<^sup>2) / 2) +
            (2 / real N) * (\<Sum>k<N. - (t * exp (- (t\<^sup>2) / 2) * exp (- ((t * x k)\<^sup>2) / 2)))"
    by (rule DERIV_add [OF p DERIV_cmult [OF s]])
  moreover have "(2 / real N) * (\<Sum>k<N. - (t * exp (- (t\<^sup>2) / 2) * exp (- ((t * x k)\<^sup>2) / 2))) =
                 - (2 * exp (- (t\<^sup>2) / 2) * (\<Sum>k<N. exp (- ((t * x k)\<^sup>2) / 2) * (t / real N)))"
    by (simp add: sum_distrib_left sum_negf mult_ac)
  moreover have "gauss_aux x N = (\<lambda>t. (gauss_int t)\<^sup>2 +
            (2 / real N) * (\<Sum>k<N. exp (- (t\<^sup>2 * (1 + (x k)\<^sup>2)) / 2) * q (x k)))"
    by (rule ext) (simp add: gauss_aux_def)
  ultimately show ?thesis
    by (simp add: algebra_simps)
qed

lemma q_nonneg: "0 \<le> q y"
proof -
  have "0 < 1 + y\<^sup>2" by (simp add: add_pos_nonneg)
  then show ?thesis by (simp add: q_def)
qed


lemma gauss_aux_zero: "gauss_aux x N 0 = 2 * ((\<Sum>k<N. q (x k)) / real N)"
  by (simp add: gauss_aux_def gauss_int_zero)

lemma gauss_int_sq_le_N:
  assumes T: "0 \<le> T" and N: "0 < N"
  shows "(gauss_int T)\<^sup>2 \<le> pi / 2 + 1 / real N"
proof -
  let ?x = "\<lambda>k::nat. real k / real N"
  have "gauss_aux ?x N T \<le> gauss_aux ?x N 0"
  proof (rule DERIV_nonpos_imp_nonincreasing [OF T])
    fix t :: real assume t: "0 \<le> t" "t \<le> T"
    have "gauss_int t \<le> (\<Sum>k<N. exp (- ((t * ?x k)\<^sup>2) / 2) * (t / real N))"
      using gauss_riemann(2) [OF t(1) N] by simp
    then have "2 * exp (- (t\<^sup>2) / 2) *
       (gauss_int t - (\<Sum>k<N. exp (- ((t * ?x k)\<^sup>2) / 2) * (t / real N))) \<le> 0"
      by (intro mult_nonneg_nonpos) auto
    then show "\<exists>y. DERIV (gauss_aux ?x N) t :> y \<and> y \<le> 0"
      using DERIV_gauss_aux by blast
  qed
  also have "\<dots> \<le> 2 * (pi / 4 + 1 / (2 * real N))"
    unfolding gauss_aux_zero using q_left_sum_le [OF N] by simp
  finally have "gauss_aux ?x N T \<le> pi / 2 + 1 / real N"
    by (simp add: field_simps)
  moreover have "0 \<le> (2 / real N) * (\<Sum>k<N. exp (- (T\<^sup>2 * (1 + (?x k)\<^sup>2)) / 2) * q (?x k))"
    by (intro mult_nonneg_nonneg sum_nonneg q_nonneg) auto
  ultimately show ?thesis
    unfolding gauss_aux_def by linarith
qed


lemma le_of_all_inverse:
  fixes a b :: real
  assumes "\<And>N::nat. 0 < N \<Longrightarrow> a \<le> b + 1 / real N"
  shows "a \<le> b"
proof (rule ccontr)
  assume "\<not> a \<le> b"
  then have "0 < a - b" by simp
  then obtain n where "inverse (real (Suc n)) < a - b"
    using reals_Archimedean by blast
  moreover have "a \<le> b + 1 / real (Suc n)" by (rule assms) simp
  ultimately show False by (simp add: inverse_eq_divide del: of_nat_Suc)
qed

lemma gauss_int_sq_le:
  assumes T: "0 \<le> T"
  shows "(gauss_int T)\<^sup>2 \<le> pi / 2"
  by (rule le_of_all_inverse) (rule gauss_int_sq_le_N [OF T])


lemma gauss_int_mono: "x \<le> y \<Longrightarrow> gauss_int x \<le> gauss_int y"
  by (rule DERIV_nonneg_imp_nondecreasing [of x y gauss_int])
     (auto intro!: exI [of _ "exp (- (t\<^sup>2) / 2)" for t] DERIV_gauss_int)

lemma gauss_int_strict_mono: "x < y \<Longrightarrow> gauss_int x < gauss_int y"
  by (rule DERIV_pos_imp_increasing [of x y gauss_int])
     (auto intro!: exI [of _ "exp (- (t\<^sup>2) / 2)" for t] DERIV_gauss_int)


lemma gauss_int_le: "gauss_int x \<le> sqrt (pi / 2)"
proof (cases "0 \<le> x")
  case True
  then show ?thesis by (intro real_le_rsqrt gauss_int_sq_le)
next
  case False
  then have "gauss_int x \<le> gauss_int 0" by (intro gauss_int_mono) simp
  then show ?thesis by (simp add: gauss_int_zero order_trans [of _ 0])
qed

lemma gauss_int_ge: "- sqrt (pi / 2) \<le> gauss_int x"
  using gauss_int_le [of "- x"] by (simp add: gauss_int_minus)

lemma sqrt_half_pi_ratio: "sqrt (pi / 2) / sqrt (2 * pi) = 1 / 2"
proof -
  have "sqrt (pi / 2) / sqrt (2 * pi) = sqrt ((pi / 2) / (2 * pi))"
    by (simp only: real_sqrt_divide)
  also have "(pi / 2) / (2 * pi) = (1 / 2)\<^sup>2"
    by (simp add: power2_eq_square)
  also have "sqrt ((1 / 2)\<^sup>2) = 1 / 2"
    by (simp only: real_sqrt_abs)
  finally show ?thesis .
qed

lemma std_normal_cdf_le_one: "std_normal_cdf x \<le> 1"
proof -
  have "gauss_int x / sqrt (2 * pi) \<le> sqrt (pi / 2) / sqrt (2 * pi)"
    by (intro divide_right_mono gauss_int_le) simp
  then have "gauss_int x / sqrt (2 * pi) \<le> 1 / 2"
    by (simp only: sqrt_half_pi_ratio)
  then show ?thesis unfolding std_normal_cdf_def by linarith
qed

lemma std_normal_cdf_nonneg: "0 \<le> std_normal_cdf x"
  using std_normal_cdf_le_one [of "- x"] by (simp add: std_normal_cdf_minus)

lemma std_normal_pdf_pos: "0 < std_normal_pdf x"
  by (simp add: std_normal_pdf_def)

lemma DERIV_std_normal_cdf: "DERIV std_normal_cdf x :> std_normal_pdf x"
proof -
  have "DERIV (\<lambda>x. gauss_int x / sqrt (2 * pi)) x :> exp (- (x\<^sup>2) / 2) / sqrt (2 * pi)"
    by (rule DERIV_cdivide [OF DERIV_gauss_int])
  then have "DERIV (\<lambda>x. 1 / 2 + gauss_int x / sqrt (2 * pi)) x :>
      0 + exp (- (x\<^sup>2) / 2) / sqrt (2 * pi)"
    by (rule DERIV_add [OF DERIV_const])
  moreover have "std_normal_cdf = (\<lambda>x. 1 / 2 + gauss_int x / sqrt (2 * pi))"
    by (rule ext) (simp add: std_normal_cdf_def)
  ultimately show ?thesis by (simp add: std_normal_pdf_def)
qed

lemma std_normal_cdf_strict_mono: "x < y \<Longrightarrow> std_normal_cdf x < std_normal_cdf y"
  by (rule DERIV_pos_imp_increasing [of x y std_normal_cdf])
     (auto intro!: exI [of _ "std_normal_pdf t" for t] DERIV_std_normal_cdf std_normal_pdf_pos)

lemma std_normal_cdf_less_one: "std_normal_cdf x < 1"
  using std_normal_cdf_strict_mono [of x "x + 1"] std_normal_cdf_le_one [of "x + 1"] by simp

lemma std_normal_cdf_pos: "0 < std_normal_cdf x"
  using std_normal_cdf_less_one [of "- x"] by (simp add: std_normal_cdf_minus)









section \<open>Arithmetic of finite floats\<close>

lemma fl_add_Fin [simp]: "fl_add (Fin x) (Fin y) = Fin (x + y)"
  by (simp add: fl_add_def signed_zero_def)

lemma fl_sub_Fin [simp]: "fl_sub (Fin x) (Fin y) = Fin (x - y)"
  by (simp add: fl_sub_def fl_add_def signed_zero_def)

lemma fl_mul_Fin:
  "fl_mul (Fin x) (Fin y) = (if x * y = 0 \<and> (x < 0) \<noteq> (y < 0) then NZero else Fin (x * y))"
  by (auto simp: fl_mul_def signed_zero_def)

lemma fl_mul_Fin_pos_right [simp]: "0 < y \<Longrightarrow> fl_mul (Fin x) (Fin y) = Fin (x * y)"
  by (auto simp: fl_mul_Fin)

lemma fl_mul_Fin_pos_left [simp]: "0 < x \<Longrightarrow> fl_mul (Fin x) (Fin y) = Fin (x * y)"
  by (auto simp: fl_mul_Fin)

lemma fl_div_Fin_pos [simp]: "0 < y \<Longrightarrow> fl_div (Fin x) (Fin y) = Fin (x / y)"
  by (auto simp: fl_div_def signed_zero_def)

lemma norm_cdf_neg_Fin [simp]: "norm_cdf (fl_neg (Fin x)) = Fin (std_normal_cdf (- x))"
  by simp

lemma fl_neg_Fin_pos [simp]: "0 < x \<Longrightarrow> fl_neg (Fin x) = Fin (- x)"
  by simp

section \<open>Zero time to expiry\<close>

text \<open>
  C2. For spot and strike positive and any rate and volatility, a time to expiry
  \<open>T \<le> 0\<close> makes \<open>black_scholes_price\<close> return the intrinsic value, \<open>max 0 (S - K)\<close> for
  a call and \<open>max 0 (K - S)\<close> for a put, with no volatility term; at \<open>T = 0\<close> the call with
  spot 150 and strike 160 is worth 0 and the call with spot 170 and strike 160 is worth 10.
\<close>

theorem zero_time_intrinsic:
  "(0 < S \<and> 0 < K \<and> T \<le> 0 \<longrightarrow>
      black_scholes_price S K T r sigma ''call'' = Inr (Fin (max 0 (S - K))) \<and>
      black_scholes_price S K T r sigma ''put'' = Inr (Fin (max 0 (K - S)))) \<and>
   black_scholes_price 150 160 0 r sigma ''call'' = Inr (Fin 0) \<and>
   black_scholes_price 170 160 0 r sigma ''call'' = Inr (Fin 10)"
  by (simp add: black_scholes_price_def)

theorem zero_time_intrinsic_witness:
  "(0::real) < 90 \<and> (0::real) < 100 \<and> (-1::real) \<le> 0 \<and>
   black_scholes_price 90 100 (-1) (1/20) (Fin (1/5)) ''call'' = Inr (Fin 0) \<and>
   black_scholes_price 90 100 (-1) (1/20) (Fin (1/5)) ''put'' = Inr (Fin 10)"
  using zero_time_intrinsic [of 90 100 "-1" "1/20" "Fin (1/5)"] by simp

section \<open>Black-Scholes: closed forms on the regular domain\<close>

lemma bs_d1_fin:
  assumes "0 < S" "0 < K" "0 < T" "0 < sigma"
  shows "bs_d1 S K T r (Fin sigma) = Fin (d1_real S K T r sigma)"
  using assms by (simp add: bs_d1_def np_log_def d1_real_def power2_eq_square)

lemma bs_d2_fin:
  assumes "0 < S" "0 < K" "0 < T" "0 < sigma"
  shows "bs_d2 S K T r (Fin sigma) = Fin (d1_real S K T r sigma - sigma * sqrt T)"
  using assms by (simp add: bs_d2_def bs_d1_fin)

lemma call_price_fin:
  assumes "0 < S" "0 < K" "0 < T" "0 < sigma"
  shows "black_scholes_price S K T r (Fin sigma) ''call'' =
           Inr (Fin (S * std_normal_cdf (d1_real S K T r sigma) -
                     K * exp (- r * T) * std_normal_cdf (d1_real S K T r sigma - sigma * sqrt T)))"
  using assms by (simp add: black_scholes_price_def bs_d1_fin bs_d2_fin)

lemma put_price_fin:
  assumes "0 < S" "0 < K" "0 < T" "0 < sigma"
  shows "black_scholes_price S K T r (Fin sigma) ''put'' =
           Inr (Fin (K * exp (- r * T) * std_normal_cdf (- (d1_real S K T r sigma - sigma * sqrt T)) -
                     S * std_normal_cdf (- d1_real S K T r sigma)))"
  using assms by (simp add: black_scholes_price_def bs_d1_fin bs_d2_fin)

section \<open>Put-call parity\<close>

text \<open>
  C1 (as stated). Put-call parity for every spot, strike and volatility that are positive,
  every rate and every time to expiry, including \<open>T \<le> 0\<close>: call price minus put price
  equals \<open>S - K * exp (- r * T)\<close>. At \<open>T < 0\<close> both prices are intrinsic values, so the
  difference is \<open>S - K\<close>: with \<open>S = K = 1\<close>, \<open>T = -1\<close>, \<open>r = 1\<close> both prices are 0, and
  \<open>1 - exp 1\<close> is not 0.
\<close>

theorem parity_fails_for_negative_time:
  "black_scholes_price 1 1 (- 1) 1 (Fin 1) ''call'' = Inr (Fin 0) \<and>
   black_scholes_price 1 1 (- 1) 1 (Fin 1) ''put'' = Inr (Fin 0) \<and>
   (0::real) - 0 \<noteq> 1 - 1 * exp (- 1 * (- 1))"
  by (simp add: black_scholes_price_def)

text \<open>
  C1 (amended). For spot, strike and volatility positive and every rate, both prices are
  finite and call price minus put price equals \<open>S - K * exp (- r * T)\<close> when \<open>0 \<le> T\<close>;
  when \<open>T < 0\<close> it equals \<open>S - K\<close>.
\<close>

theorem put_call_parity:
  assumes "0 < S" "0 < K" "0 < sigma"
  shows "\<exists>c p. black_scholes_price S K T r (Fin sigma) ''call'' = Inr (Fin c) \<and>
               black_scholes_price S K T r (Fin sigma) ''put'' = Inr (Fin p) \<and>
               c - p = (if 0 \<le> T then S - K * exp (- r * T) else S - K)"
proof (cases "0 < T")
  case True
  let ?d1 = "d1_real S K T r sigma"
  let ?d2 = "d1_real S K T r sigma - sigma * sqrt T"
  let ?c = "S * std_normal_cdf ?d1 - K * exp (- r * T) * std_normal_cdf ?d2"
  let ?p = "K * exp (- r * T) * std_normal_cdf (- ?d2) - S * std_normal_cdf (- ?d1)"
  have c: "black_scholes_price S K T r (Fin sigma) ''call'' = Inr (Fin ?c)"
    by (rule call_price_fin [OF assms(1,2) True assms(3)])
  have p: "black_scholes_price S K T r (Fin sigma) ''put'' = Inr (Fin ?p)"
    by (rule put_price_fin [OF assms(1,2) True assms(3)])
  have "?c - ?p = S - K * exp (- r * T)"
    by (simp only: std_normal_cdf_minus) (simp add: algebra_simps)
  with c p True show ?thesis
    by (intro exI [of _ ?c] exI [of _ ?p]) simp
next
  case False
  then show ?thesis
    by (cases "T = 0") (auto simp: black_scholes_price_def)
qed

theorem put_call_parity_witness:
  "(0::real) < 150 \<and> (0::real) < 160 \<and> (0::real) < 1/4 \<and>
   (\<exists>c p. black_scholes_price 150 160 (1/2) (1/50) (Fin (1/4)) ''call'' = Inr (Fin c) \<and>
          black_scholes_price 150 160 (1/2) (1/50) (Fin (1/4)) ''put'' = Inr (Fin p) \<and>
          c - p = 150 - 160 * exp (- (1/50) * (1/2)))"
  using put_call_parity [of 150 160 "1/4" "1/2" "1/50"] by simp

section \<open>Zero volatility\<close>






section \<open>Signs of the Greeks\<close>

text \<open>
  C4. For spot, strike and volatility positive, every rate and every \<open>T \<ge> 0\<close>, the Greeks
  are finite, Gamma and Vega are not negative, the Delta of a call lies in [0, 1] and the
  Delta of a put in [-1, 0]; this includes the all-zero result for \<open>T = 0\<close>.
\<close>

theorem greeks_sign_invariants:
  assumes "0 < S" "0 < K" "0 < sigma" "0 \<le> T"
  shows "\<exists>delta gamma vega theta rho.
           black_scholes_greeks S K T r (Fin sigma) option_type =
             Inr \<lparr>Delta = Fin delta, Gamma = Fin gamma, Vega = Fin vega,
                  Theta = Fin theta, Rho = Fin rho\<rparr> \<and>
           0 \<le> gamma \<and> 0 \<le> vega \<and>
           (if option_type = ''call'' then 0 \<le> delta \<and> delta \<le> 1
            else - 1 \<le> delta \<and> delta \<le> 0)"
proof (cases "0 < T")
  case False
  with assms have "T = 0" by simp
  then show ?thesis by (simp add: black_scholes_greeks_def)
next
  case True
  note d = bs_d1_fin [OF assms(1,2) True assms(3)] bs_d2_fin [OF assms(1,2) True assms(3)]
  have den: "0 < S * sigma * sqrt T" "0 < sqrt T" "0 < S * sigma"
    using assms True by auto
  have pos: "0 < std_normal_pdf x" "0 < std_normal_cdf x" "0 < exp x" for x
    using std_normal_pdf_pos [of x] std_normal_cdf_pos [of x] by simp_all
  have g: "0 \<le> std_normal_pdf x / (S * sigma * sqrt T)" for x
    using assms True std_normal_pdf_pos [of x] by (intro divide_nonneg_nonneg mult_nonneg_nonneg) auto
  have v: "0 \<le> S * std_normal_pdf x * sqrt T" for x
    using assms True std_normal_pdf_pos [of x] by (intro mult_nonneg_nonneg) auto
  have sp: "0 < S * std_normal_pdf x" for x
    using assms pos by simp
  show ?thesis
    using True assms den g v sp pos std_normal_cdf_nonneg std_normal_cdf_le_one
    by (simp add: black_scholes_greeks_def d Let_def)
qed

theorem greeks_sign_invariants_witness:
  "(0::real) < 150 \<and> (0::real) < 160 \<and> (0::real) < 1/4 \<and> (0::real) \<le> 1/2 \<and>
   (\<exists>delta gamma vega theta rho.
      black_scholes_greeks 150 160 (1/2) (1/50) (Fin (1/4)) ''put'' =
        Inr \<lparr>Delta = Fin delta, Gamma = Fin gamma, Vega = Fin vega,
             Theta = Fin theta, Rho = Fin rho\<rparr> \<and>
      0 \<le> gamma \<and> 0 \<le> vega \<and> - 1 \<le> delta \<and> delta \<le> 0)"
  using greeks_sign_invariants [of 150 160 "1/4" "1/2" "1/50" "''put''"] by simp

section \<open>Unknown option kinds\<close>

text \<open>
  C5. An option kind that is neither call nor put is to be rejected on every path of both
  functions. The price function raises \<open>ValueError\<close> only when \<open>T > 0\<close>; for \<open>T \<le> 0\<close> it
  returns the intrinsic value of a put, and the Greeks are computed as for a put whatever
  the kind is.
\<close>

theorem invalid_kind_not_surfaced:
  "black_scholes_price 90 100 0 (1/20) (Fin (1/5)) ''straddle'' = Inr (Fin 10) \<and>
   black_scholes_price 90 100 1 (1/20) (Fin (1/5)) ''straddle'' = Inl ValueError \<and>
   black_scholes_greeks 90 100 0 (1/20) (Fin (1/5)) ''straddle'' =
     Inr \<lparr>Delta = Fin 0, Gamma = Fin 0, Vega = Fin 0, Theta = Fin 0, Rho = Fin 0\<rparr> \<and>
   black_scholes_greeks 90 100 1 (1/20) (Fin (1/5)) ''straddle'' =
     black_scholes_greeks 90 100 1 (1/20) (Fin (1/5)) ''put'' \<and>
   black_scholes_greeks 90 100 1 (1/20) (Fin (1/5)) ''straddle'' \<noteq> Inl ValueError"
  by (simp add: black_scholes_price_def black_scholes_greeks_def Let_def)

section \<open>The surface builder: extraction and grid\<close>

lemma sequence_map_Inr:
  assumes "\<And>x. x \<in> set xs \<Longrightarrow> f x = Inr (g x)"
  shows "sequence (map f xs) = Inr (map g xs)"
  using assms by (induction xs) simp_all

lemma is_nearest_step:
  assumes "is_nearest key ps b"
  shows "is_nearest key (ps @ [y]) (if key y < key b then y else b)"
proof -
  from assms obtain i where i: "i < length ps" "ps ! i = b"
    "\<forall>j<length ps. key b \<le> key (ps ! j)" "\<forall>j<i. key b < key (ps ! j)"
    unfolding is_nearest_def by blast
  show ?thesis
  proof (cases "key y < key b")
    case True
    have "\<forall>j<length (ps @ [y]). key y \<le> key ((ps @ [y]) ! j)"
      using True i(3) by (auto simp: nth_append less_Suc_eq)
    moreover have "\<forall>j<length ps. key y < key ((ps @ [y]) ! j)"
      using True i(3) by (auto simp: nth_append)
    ultimately show ?thesis
      unfolding is_nearest_def using True
      by (intro exI [of _ "length ps"]) simp
  next
    case False
    have "\<forall>j<length (ps @ [y]). key b \<le> key ((ps @ [y]) ! j)"
      using False i(3) by (auto simp: nth_append less_Suc_eq)
    moreover have "\<forall>j<i. key b < key ((ps @ [y]) ! j)"
      using i(1,4) by (auto simp: nth_append)
    moreover have "(ps @ [y]) ! i = b" using i(1,2) by (simp add: nth_append)
    ultimately show ?thesis
      unfolding is_nearest_def using False i(1)
      by (intro exI [of _ i]) simp
  qed
qed

lemma is_nearest_foldl:
  assumes "is_nearest key ps b"
  shows "is_nearest key (ps @ xs) (foldl (\<lambda>best y. if key y < key best then y else best) b xs)"
  using assms
proof (induction xs arbitrary: ps b)
  case Nil
  then show ?case by simp
next
  case (Cons y ys)
  from is_nearest_step [OF Cons.prems, of y]
  have "is_nearest key ((ps @ [y]) @ ys)
          (foldl (\<lambda>best y. if key y < key best then y else best) (if key y < key b then y else b) ys)"
    by (rule Cons.IH)
  then show ?case by simp
qed

lemma py_min_key_nearest:
  assumes "xs \<noteq> []"
  shows "\<exists>m. py_min_key key xs = Inr m \<and> is_nearest key xs m"
proof -
  from assms obtain x ys where xs: "xs = x # ys" by (cases xs) auto
  have "is_nearest key [x] x" by (simp add: is_nearest_def)
  from is_nearest_foldl [OF this, of ys] show ?thesis by (simp add: xs)
qed

lemma is_nearest_in_set: "is_nearest key xs m \<Longrightarrow> m \<in> set xs"
  by (auto simp: is_nearest_def)

lemma is_nearest_unique:
  assumes "is_nearest key xs m" "is_nearest key xs m'"
  shows "m = m'"
proof -
  from assms(1) obtain i where i: "i < length xs" "xs ! i = m"
    "\<forall>j<length xs. key m \<le> key (xs ! j)" "\<forall>j<i. key m < key (xs ! j)"
    unfolding is_nearest_def by blast
  from assms(2) obtain i' where i': "i' < length xs" "xs ! i' = m'"
    "\<forall>j<length xs. key m' \<le> key (xs ! j)" "\<forall>j<i'. key m' < key (xs ! j)"
    unfolding is_nearest_def by blast
  have "\<not> i < i'"
  proof
    assume "i < i'"
    with i'(4) have "key m' < key (xs ! i)" by simp
    moreover have "key m \<le> key (xs ! i')" using i(3) i'(1) by simp
    ultimately show False using i(2) i'(2) by simp
  qed
  moreover have "\<not> i' < i"
  proof
    assume "i' < i"
    with i(4) have "key m < key (xs ! i')" by simp
    moreover have "key m' \<le> key (xs ! i)" using i'(3) i(1) by simp
    ultimately show False using i(2) i'(2) by simp
  qed
  ultimately have "i = i'" by simp
  with i(2) i'(2) show ?thesis by simp
qed

lemma is_nearest_py_min_key:
  assumes "is_nearest key xs m"
  shows "py_min_key key xs = Inr m"
proof -
  from assms have "xs \<noteq> []" by (auto simp: is_nearest_def)
  then obtain m' where m': "py_min_key key xs = Inr m'" "is_nearest key xs m'"
    using py_min_key_nearest by blast
  with assms have "m = m'" by (intro is_nearest_unique)
  with m'(1) show ?thesis by simp
qed

lemma foldl_min_Min: "foldl min x xs = Min (set (x # xs))"
proof -
  have "foldl min x xs = fold min xs x"
    by (induction xs arbitrary: x) (simp_all add: min.commute)
  then show ?thesis by (simp only: Min.set_eq_fold)
qed

lemma foldl_max_Max: "foldl max x xs = Max (set (x # xs))"
proof -
  have "foldl max x xs = fold max xs x"
    by (induction xs arbitrary: x) (simp_all add: max.commute)
  then show ?thesis by (simp only: Max.set_eq_fold)
qed

lemma py_min_Min: "xs \<noteq> [] \<Longrightarrow> py_min xs = Inr (Min (set xs))"
  by (cases xs) (simp_all add: foldl_min_Min del: set_simps)

lemma py_max_Max: "xs \<noteq> [] \<Longrightarrow> py_max xs = Inr (Max (set xs))"
  by (cases xs) (simp_all add: foldl_max_Max del: set_simps)

lemma node_value_spec:
  assumes "all_days \<noteq> []" "all_strikes \<noteq> []"
  shows "\<exists>dstar sstar atm.
           is_nearest (\<lambda>x. \<bar>of_int x - d\<bar>) all_days dstar \<and>
           is_nearest (\<lambda>x. \<bar>x - s\<bar>) all_strikes sstar \<and>
           is_nearest (\<lambda>x. \<bar>x - current_price\<bar>) all_strikes atm \<and>
           node_value all_days all_strikes iv_data current_price d s =
             Inr (spec_node iv_data dstar sstar atm)"
proof -
  obtain dstar where d: "py_min_key (\<lambda>x. \<bar>of_int x - d\<bar>) all_days = Inr dstar"
      "is_nearest (\<lambda>x. \<bar>of_int x - d\<bar>) all_days dstar"
    using py_min_key_nearest [OF assms(1)] by blast
  obtain sstar where s: "py_min_key (\<lambda>x. \<bar>x - s\<bar>) all_strikes = Inr sstar"
      "is_nearest (\<lambda>x. \<bar>x - s\<bar>) all_strikes sstar"
    using py_min_key_nearest [OF assms(2)] by blast
  obtain atm where a: "py_min_key (\<lambda>x. \<bar>x - current_price\<bar>) all_strikes = Inr atm"
      "is_nearest (\<lambda>x. \<bar>x - current_price\<bar>) all_strikes atm"
    using py_min_key_nearest [OF assms(2)] by blast
  have "node_value all_days all_strikes iv_data current_price d s =
          Inr (spec_node iv_data dstar sstar atm)"
    by (simp add: node_value_def spec_node_def day_values_def d(1) s(1) a(1) split: option.splits)
  with d(2) s(2) a(2) show ?thesis by blast
qed

lemma transpose_rect:
  assumes "xs \<noteq> []" and "\<And>row. row \<in> set xs \<Longrightarrow> length row = n"
  shows "length (transpose xs) = n"
    and "j < n \<Longrightarrow> transpose xs ! j = map (\<lambda>row. row ! j) xs"
proof -
  have "(\<forall>row\<in>set ys. length row = n) \<Longrightarrow>
          foldr (\<lambda>xs. max (length xs)) ys 0 = (if ys = [] then 0 else n)" for ys :: "'a list list"
    by (induction ys) auto
  then have "foldr (\<lambda>xs. max (length xs)) xs 0 = n"
    using assms by simp
  then show len: "length (transpose xs) = n" by (simp add: length_transpose)
  assume "j < n"
  then have "filter (\<lambda>ys. j < length ys) xs = xs"
    using assms(2) by (auto simp: filter_id_conv)
  then show "transpose xs ! j = map (\<lambda>row. row ! j) xs"
    using \<open>j < n\<close> len by (simp add: nth_transpose)
qed

lemma linspace_like_exact:
  "linspace_like (\<lambda>a b n. if a = b then replicate n a
                    else map (\<lambda>i. a + real i * ((b - a) / real (n - 1))) [0..<n])"
  unfolding linspace_like_def
proof (intro allI conjI)
  fix a b :: real and n :: nat
  show "length (if a = b then replicate n a
                else map (\<lambda>i. a + real i * ((b - a) / real (n - 1))) [0..<n]) = n"
    by simp
  show "(if a = b then replicate (Suc n) a
         else map (\<lambda>i. a + real i * ((b - a) / real (Suc n - 1))) [0..<Suc n]) ! 0 = a"
    by (simp del: upt_Suc replicate.simps add: nth_map_upt)
  have "real (Suc n) * ((b - a) / real (Suc n)) = b - a"
    by (simp del: of_nat_Suc)
  then show "(if a = b then replicate (Suc (Suc n)) a
         else map (\<lambda>i. a + real i * ((b - a) / real (Suc (Suc n) - 1))) [0..<Suc (Suc n)]) ! Suc n = b"
    by (simp del: of_nat_Suc upt_Suc replicate.simps add: nth_map_upt)
  show "(if a = a then replicate n a
         else map (\<lambda>i. a + real i * ((a - a) / real (n - 1))) [0..<n]) = replicate n a"
    by simp
qed

lemma linspace_like_np_linspace: "linspace_like np_linspace"
  unfolding np_linspace_def by (rule someI [of linspace_like, OF linspace_like_exact])

lemmas np_linspace_facts = linspace_like_np_linspace [unfolded linspace_like_def, rule_format]

lemma length_np_linspace [simp]: "length (np_linspace a b n) = n"
  by (rule np_linspace_facts [THEN conjunct1])

lemma np_linspace_first:
  assumes "0 < n"
  shows "np_linspace a b n ! 0 = a"
proof -
  from assms obtain m where "n = Suc m"
    by (cases n) simp_all
  then show ?thesis
    using np_linspace_facts [of a b m] by (elim conjE) (simp only:)
qed

lemma np_linspace_last:
  assumes "1 < n"
  shows "np_linspace a b n ! (n - 1) = b"
proof -
  from assms obtain k where k: "n = Suc k"
    by (cases n) simp_all
  with assms obtain m where "k = Suc m"
    by (cases k) simp_all
  with k have "n = Suc (Suc m)" "n - 1 = Suc m"
    by simp_all
  then show ?thesis
    using np_linspace_facts [of a b m] by (elim conjE) (simp only:)
qed

lemma np_linspace_const: "np_linspace a a n = replicate n a"
  using np_linspace_facts [of a a n] by (elim conjE)

lemma set_update_subset: "set (AList.update k v al) \<subseteq> insert (k, v) (set al)"
  by (induction al) auto

lemma add_row_ok:
  assumes "quotes_ok ds st" "days \<in> ds"
  shows "quotes_ok ds (add_row strike_range days st rw)"
proof -
  have "set (AList.update (days, fst rw) (snd rw) (snd st))
          \<subseteq> insert ((days, fst rw), snd rw) (set (snd st))"
    by (rule set_update_subset)
  with assms show ?thesis
    unfolding quotes_ok_def add_row_def Let_def by (auto split: if_splits)
qed

lemma add_rows_ok:
  assumes "quotes_ok ds st" "days \<in> ds"
  shows "quotes_ok ds (foldl (add_row strike_range days) st rows)"
  using assms(1) by (induction rows arbitrary: st) (simp_all add: add_row_ok assms(2))

lemma quotes_ok_mono: "quotes_ok ds st \<Longrightarrow> ds \<subseteq> ds' \<Longrightarrow> quotes_ok ds' st"
  unfolding quotes_ok_def by blast

lemma add_expiration_ok:
  assumes "quotes_ok (set (fst (snd st))) (fst st, snd (snd st))"
  shows "quotes_ok (set (fst (snd (add_expiration today strike_range st e))))
           (fst (add_expiration today strike_range st e),
            snd (snd (add_expiration today strike_range st e)))"
proof (cases "\<lfloor>of_int (fst e) - today\<rfloor> \<le> 0")
  case True
  then show ?thesis using assms by (simp add: add_expiration_def Let_def)
next
  case False
  let ?days = "\<lfloor>of_int (fst e) - today\<rfloor>"
  let ?ds = "set (fst (snd st) @ [?days])"
  have "quotes_ok ?ds (fst st, snd (snd st))"
    using assms by (rule quotes_ok_mono) auto
  then have "quotes_ok ?ds (foldl (add_row strike_range ?days)
                 (foldl (add_row strike_range ?days) (fst st, snd (snd st)) (calls (snd e)))
                 (puts (snd e)))"
    by (intro add_rows_ok) auto
  then show ?thesis using False by (simp add: add_expiration_def Let_def)
qed

lemma extract_quotes_ok:
  "quotes_ok (set (fst (snd (extract_quotes today options_data strike_range))))
     (fst (extract_quotes today options_data strike_range),
      snd (snd (extract_quotes today options_data strike_range)))"
proof -
  have "quotes_ok (set (fst (snd st))) (fst st, snd (snd st)) \<Longrightarrow>
        quotes_ok (set (fst (snd (foldl (add_expiration today strike_range) st od))))
          (fst (foldl (add_expiration today strike_range) st od),
           snd (snd (foldl (add_expiration today strike_range) st od)))"
    for st od
    by (induction od arbitrary: st) (simp_all add: add_expiration_ok)
  from this [of "({}, [], [])" options_data] show ?thesis
    by (simp add: extract_quotes_def quotes_ok_def)
qed

lemma extract_quotes_nonempty:
  assumes "snd (snd (extract_quotes today options_data strike_range)) \<noteq> []"
  shows "sort (fst (snd (extract_quotes today options_data strike_range))) \<noteq> []"
    and "sorted_list_of_set (fst (extract_quotes today options_data strike_range)) \<noteq> []"
proof -
  let ?ex = "extract_quotes today options_data strike_range"
  from assms obtain kv where kv: "kv \<in> set (snd (snd ?ex))"
    by (cases "snd (snd ?ex)") auto
  have ok: "quotes_ok (set (fst (snd ?ex))) (fst ?ex, snd (snd ?ex))"
    by (rule extract_quotes_ok)
  from ok kv have "fst (fst kv) \<in> set (fst (snd ?ex))" "snd (fst kv) \<in> fst ?ex" "finite (fst ?ex)"
    unfolding quotes_ok_def by auto
  then show "sort (fst (snd ?ex)) \<noteq> []" "sorted_list_of_set (fst ?ex) \<noteq> []"
    by (auto simp: sorted_list_of_set_nonempty)
      (metis empty_iff empty_set set_sort)
qed

text \<open>The grid built by a successful call.\<close>

lemma interpolate_grid:
  fixes today options_data current_price strike_range
  defines "ex \<equiv> extract_quotes today options_data strike_range"
  defines "all_days \<equiv> sort (fst (snd ex))"
  defines "all_strikes \<equiv> sorted_list_of_set (fst ex)"
  defines "rng \<equiv> (case strike_range of Some r \<Rightarrow> r
                    | None \<Rightarrow> (Min (set all_strikes), Max (set all_strikes)))"
  defines "strikes \<equiv> np_linspace (fst rng) (snd rng) 50"
  defines "days \<equiv> np_linspace (of_int (Min (set all_days))) (of_int (Max (set all_days)))
                    (min 50 (length all_days * 5))"
  assumes ne: "all_days \<noteq> []" "all_strikes \<noteq> []"
  shows "interpolate_volatility_surface today options_data current_price strike_range =
           Inr (replicate 50 days,
                map (\<lambda>s. replicate (length days) s) strikes,
                map (\<lambda>s. map (\<lambda>d. projr (node_value all_days all_strikes (snd (snd ex))
                                           current_price d s)) days) strikes)"
proof -
  let ?node = "\<lambda>d s. node_value all_days all_strikes (snd (snd ex)) current_price d s"
  have node: "?node d s = Inr (projr (?node d s))" for d s
    using node_value_spec [OF ne, of d s current_price "snd (snd ex)"] by auto
  have rows: "sequence (map (\<lambda>s. ?node d s) strikes) = Inr (map (\<lambda>s. projr (?node d s)) strikes)" for d
    by (rule sequence_map_Inr) (rule node)
  have grid: "sequence (map (\<lambda>d. sequence (map (\<lambda>s. ?node d s) strikes)) days) =
          Inr (map (\<lambda>d. map (\<lambda>s. projr (?node d s)) strikes) days)"
    by (rule sequence_map_Inr) (rule rows)
  have dn: "days \<noteq> []"
  proof -
    have "0 < length all_days" using ne(1) by simp
    then have "0 < length days" unfolding days_def by simp
    then show ?thesis by auto
  qed
  have tr: "transpose (map (\<lambda>d. map (\<lambda>s. projr (?node d s)) strikes) days) =
            map (\<lambda>s. map (\<lambda>d. projr (?node d s)) days) strikes"
  proof (rule nth_equalityI)
    have l: "length (transpose (map (\<lambda>d. map (\<lambda>s. projr (?node d s)) strikes) days)) = length strikes"
      by (rule transpose_rect(1)) (use dn in auto)
    then show "length (transpose (map (\<lambda>d. map (\<lambda>s. projr (?node d s)) strikes) days)) =
               length (map (\<lambda>s. map (\<lambda>d. projr (?node d s)) days) strikes)" by simp
    fix j assume "j < length (transpose (map (\<lambda>d. map (\<lambda>s. projr (?node d s)) strikes) days))"
    then have j: "j < length strikes" using l by simp
    have "transpose (map (\<lambda>d. map (\<lambda>s. projr (?node d s)) strikes) days) ! j =
          map (\<lambda>row. row ! j) (map (\<lambda>d. map (\<lambda>s. projr (?node d s)) strikes) days)"
      by (rule transpose_rect(2) [where n = "length strikes"]) (use dn j in auto)
    then show "transpose (map (\<lambda>d. map (\<lambda>s. projr (?node d s)) strikes) days) ! j =
               map (\<lambda>s. map (\<lambda>d. projr (?node d s)) days) strikes ! j"
      using j by simp
  qed
  have r: "(case strike_range of Some r \<Rightarrow> Inr r
            | None \<Rightarrow> (case py_min all_strikes of Inl e \<Rightarrow> Inl e
                | Inr lo \<Rightarrow> (case py_max all_strikes of Inl e \<Rightarrow> Inl e | Inr hi \<Rightarrow> Inr (lo, hi))))
           = (Inr rng :: error + real \<times> real)"
    unfolding rng_def by (simp add: py_min_Min [OF ne(2)] py_max_Max [OF ne(2)] split: option.splits)
  have ls: "length strikes = 50" by (simp add: strikes_def)
  show ?thesis
    unfolding interpolate_volatility_surface_def Let_def
      ex_def [symmetric] all_days_def [symmetric] all_strikes_def [symmetric] r
    apply (simp only: sum.case py_min_Min [OF ne(1)] py_max_Max [OF ne(1)]
        strikes_def [symmetric] days_def [symmetric] grid tr ls)
    done
qed

lemma floor_days: "\<lfloor>of_int e - today\<rfloor> = e - \<lceil>today\<rceil>"
proof -
  have "\<lfloor>of_int e - today\<rfloor> = \<lfloor>- today + of_int e\<rfloor>" by (simp add: algebra_simps)
  also have "\<dots> = \<lfloor>- today\<rfloor> + e" by (simp only: floor_add_int)
  finally show ?thesis by (simp add: floor_minus)
qed

lemma extract_single_quote:
  assumes "\<lceil>today\<rceil> < 110"
  shows "extract_quotes today single_quote_data None =
           ({100}, [110 - \<lceil>today\<rceil>], [((110 - \<lceil>today\<rceil>, 100), Fin (1/5))])"
proof -
  have "\<lfloor>110 - today\<rfloor> = 110 - \<lceil>today\<rceil>"
    using floor_days [of 110 today] by simp
  with assms show ?thesis
    by (simp add: extract_quotes_def single_quote_data_def add_expiration_def add_row_def
        out_of_range_def Let_def)
qed

lemma surface_single_quote:
  assumes "\<lceil>today\<rceil> < 110"
  shows "interpolate_volatility_surface today single_quote_data 100 None =
           Inr (replicate 50 (replicate 5 (of_int (110 - \<lceil>today\<rceil>))),
                replicate 50 (replicate 5 100),
                replicate 50 (replicate 5 (Fin (1/5))))"
proof -
  note ex = extract_single_quote [OF assms]
  have node: "node_value [110 - \<lceil>today\<rceil>] [100] [((110 - \<lceil>today\<rceil>, 100), Fin (1/5))] 100 d s =
                Inr (Fin (1/5))" for d s
    by (simp add: node_value_def)
  show ?thesis
    by (subst interpolate_grid) (simp_all add: ex np_linspace_const node map_replicate_const)
qed

section \<open>Surface reconstruction\<close>





section \<open>Determinism of the surface build\<close>

text \<open>
  C7 (as stated). Two invocations on the same options data, current price and strike range
  return the same grid, with no dependence on the wall clock. The days to expiry are taken
  from \<open>datetime.now()\<close>: the same call one day later returns another day axis.
\<close>

theorem surface_depends_on_clock:
  "interpolate_volatility_surface 100 single_quote_data 100 None \<noteq>
   interpolate_volatility_surface 101 single_quote_data 100 None"
  using surface_single_quote [of 100] surface_single_quote [of 101] by simp

text \<open>
  C7 (amended). The grid is a function of the options data, the current price, the strike
  range and the clock reading: two invocations whose clock readings round up to the same
  whole day return the same result.
\<close>

theorem surface_same_day_deterministic:
  assumes "\<lceil>today1\<rceil> = \<lceil>today2\<rceil>"
  shows "interpolate_volatility_surface today1 options_data current_price strike_range =
         interpolate_volatility_surface today2 options_data current_price strike_range"
proof -
  have "add_expiration today1 strike_range = add_expiration today2 strike_range"
    by (intro ext) (simp add: add_expiration_def floor_days assms)
  then have "extract_quotes today1 options_data strike_range =
             extract_quotes today2 options_data strike_range"
    by (simp add: extract_quotes_def)
  then show ?thesis
    by (simp add: interpolate_volatility_surface_def)
qed

theorem surface_same_day_deterministic_witness:
  "\<lceil>401 / 4 :: real\<rceil> = \<lceil>403 / 4 :: real\<rceil> \<and>
   interpolate_volatility_surface (401 / 4) single_quote_data 100 None =
   interpolate_volatility_surface (403 / 4) single_quote_data 100 None"
proof -
  have h: "\<lceil>401 / 4 :: real\<rceil> = \<lceil>403 / 4 :: real\<rceil>" by simp
  from surface_same_day_deterministic [OF h] h show ?thesis by blast
qed

section \<open>The day-mean fallback\<close>

lemma extract_empty_day:
  "extract_quotes 100 empty_day_data None = ({100}, [10, 20], [((10, 100), Fin (1/4))])"
  by (simp add: extract_quotes_def empty_day_data_def add_expiration_def add_row_def
      out_of_range_def Let_def)

text \<open>
  C8. No node value is the mean of an empty collection. A day is registered before its rows
  are filtered: when an expiration has no usable quote, the nodes nearest to its day reach
  the final fallback with no quote for that day, and \<open>np.mean\<close> of the empty list is NaN.
\<close>

theorem empty_day_group_mean:
  "extract_quotes 100 empty_day_data None = ({100}, [10, 20], [((10, 100), Fin (1/4))]) \<and>
   node_value [10, 20] [100] [((10, 100), Fin (1/4))] 100 20 100 = Inr (np_mean []) \<and>
   np_mean [] = NaN \<and>
   (\<exists>D S Z. interpolate_volatility_surface 100 empty_day_data 100 None = Inr (D, S, Z) \<and>
      D ! 0 ! 9 = 20 \<and> S ! 0 ! 9 = 100 \<and> Z ! 0 ! 9 = NaN)"
proof -
  have n: "node_value [10, 20] [100] [((10, 100), Fin (1/4))] 100 20 100 = Inr (np_mean [])"
    by (simp add: node_value_def)
  have m: "np_mean [] = NaN" by (simp add: np_mean_def fl_div_def)
  have "np_linspace 10 20 10 ! 9 = 20" "np_linspace 100 100 50 ! 0 = 100"
    using np_linspace_last [of 10 10 20] np_linspace_first [of 50 100 100] by simp_all
  then have "\<exists>D S Z. interpolate_volatility_surface 100 empty_day_data 100 None = Inr (D, S, Z) \<and>
      D ! 0 ! 9 = 20 \<and> S ! 0 ! 9 = 100 \<and> Z ! 0 ! 9 = NaN"
    by (subst interpolate_grid) (simp_all add: extract_empty_day n m)
  with extract_empty_day n m show ?thesis by blast
qed

section \<open>The lookup table\<close>

lemma last_quote_Nil [simp]: "last_quote strike_range k [] = None"
  by (simp add: last_quote_def)

lemma last_quote_snoc:
  "last_quote strike_range k (rows @ [rw]) =
     (if fst rw = k \<and> admitted strike_range rw then Some (snd rw)
      else last_quote strike_range k rows)"
  by (simp add: last_quote_def)

lemma add_row_admitted:
  "add_row strike_range days st rw =
     (if admitted strike_range rw
      then (insert (fst rw) (fst st), AList.update (days, fst rw) (snd rw) (snd st))
      else st)"
  by (auto simp: add_row_def admitted_def Let_def)

lemma map_of_add_rows_same:
  "map_of (snd (foldl (add_row strike_range days) st rows)) (days, k) =
     (case last_quote strike_range k rows of
        Some v \<Rightarrow> Some v
      | None \<Rightarrow> map_of (snd st) (days, k))"
proof (induction rows rule: rev_induct)
  case Nil
  then show ?case by simp
next
  case (snoc rw rows)
  define st' where "st' = foldl (add_row strike_range days) st rows"
  have IH: "map_of (snd st') (days, k) =
     (case last_quote strike_range k rows of
        Some v \<Rightarrow> Some v
      | None \<Rightarrow> map_of (snd st) (days, k))"
    using snoc.IH by (simp only: st'_def)
  have step: "foldl (add_row strike_range days) st (rows @ [rw]) = add_row strike_range days st' rw"
    by (simp add: st'_def)
  show ?case
    unfolding step
    by (cases "admitted strike_range rw")
       (auto simp: add_row_admitted [of strike_range days st' rw] IH last_quote_snoc update_conv'
             split: option.splits)
qed

lemma map_of_add_rows_other:
  assumes "d \<noteq> days"
  shows "map_of (snd (foldl (add_row strike_range days) st rows)) (d, k) = map_of (snd st) (d, k)"
proof (induction rows rule: rev_induct)
  case Nil
  then show ?case by simp
next
  case (snoc rw rows)
  define st' where "st' = foldl (add_row strike_range days) st rows"
  have IH: "map_of (snd st') (d, k) = map_of (snd st) (d, k)"
    using snoc.IH by (simp only: st'_def)
  have step: "foldl (add_row strike_range days) st (rows @ [rw]) = add_row strike_range days st' rw"
    by (simp add: st'_def)
  show ?case
    unfolding step using assms
    by (cases "admitted strike_range rw")
       (auto simp: add_row_admitted [of strike_range days st' rw] IH update_conv')
qed

lemma map_of_add_expiration:
  "map_of (snd (snd (add_expiration today strike_range st e))) (d, k) =
     (if d = \<lfloor>of_int (fst e) - today\<rfloor> \<and> 0 < d
      then chain_quote strike_range k (snd e) (map_of (snd (snd st)) (d, k))
      else map_of (snd (snd st)) (d, k))"
proof (cases "d = \<lfloor>of_int (fst e) - today\<rfloor>")
  case True
  then show ?thesis
    by (simp add: add_expiration_def Let_def map_of_add_rows_same chain_quote_def
        split: option.splits)
next
  case False
  then show ?thesis
    by (simp add: add_expiration_def Let_def map_of_add_rows_other)
qed

lemma map_of_other_days:
  assumes "\<forall>e\<in>set options_data. \<lfloor>of_int (fst e) - today\<rfloor> \<noteq> d"
  shows "map_of (snd (snd (foldl (add_expiration today strike_range) st options_data))) (d, k) =
         map_of (snd (snd st)) (d, k)"
  using assms by (induction options_data arbitrary: st) (simp_all add: map_of_add_expiration)

lemma map_of_expiration:
  assumes "filter (\<lambda>x. fst x = e) options_data = [(e, ch)]"
    and "d = \<lfloor>of_int e - today\<rfloor>"
  shows "map_of (snd (snd (foldl (add_expiration today strike_range) st options_data))) (d, k) =
         (if 0 < d then chain_quote strike_range k ch (map_of (snd (snd st)) (d, k))
          else map_of (snd (snd st)) (d, k))"
  using assms(1)
proof (induction options_data arbitrary: st)
  case Nil
  then show ?case by simp
next
  case (Cons e1 rest)
  have days_inj: "\<lfloor>of_int (fst a) - today\<rfloor> \<noteq> d" if "fst a \<noteq> e" for a :: "int \<times> chain"
    using that by (simp add: assms(2) floor_days)
  show ?case
  proof (cases "fst e1 = e")
    case True
    with Cons.prems have e1: "e1 = (e, ch)" and none: "filter (\<lambda>x. fst x = e) rest = []"
      by simp_all
    from none have "\<forall>a\<in>set rest. fst a \<noteq> e"
      by (simp add: filter_empty_conv)
    then have "\<forall>a\<in>set rest. \<lfloor>of_int (fst a) - today\<rfloor> \<noteq> d"
      using days_inj by blast
    from map_of_other_days [OF this] show ?thesis
      by (simp add: e1 map_of_add_expiration assms(2))
  next
    case False
    with Cons.prems have rest: "filter (\<lambda>x. fst x = e) rest = [(e, ch)]"
      by simp
    have "map_of (snd (snd (add_expiration today strike_range st e1))) (d, k) =
          map_of (snd (snd st)) (d, k)"
      using days_inj [OF False] by (simp add: map_of_add_expiration)
    then show ?thesis
      using Cons.IH [OF rest, of "add_expiration today strike_range st e1"] by simp
  qed
qed

lemma last_quote_SomeD:
  assumes "last_quote strike_range k rows = Some v"
  shows "(k, v) \<in> set rows \<and> admitted strike_range (k, v)"
proof -
  define qs where "qs = filter (\<lambda>rw. fst rw = k \<and> admitted strike_range rw) rows"
  have ne: "qs \<noteq> []" and v: "v = snd (last qs)"
    using assms by (auto simp: last_quote_def Let_def qs_def split: if_splits)
  have "last qs \<in> set qs" using ne by simp
  then have a: "last qs \<in> set rows" "fst (last qs) = k" "admitted strike_range (last qs)"
    by (simp_all add: qs_def)
  have "last qs = (k, v)" using a(2) v by (cases "last qs") simp
  with a show ?thesis by simp
qed

lemma last_quote_admitted:
  assumes "(k, v) \<in> set rows" "admitted strike_range (k, v)"
  shows "last_quote strike_range k rows \<noteq> None"
proof -
  have "(k, v) \<in> set (filter (\<lambda>rw. fst rw = k \<and> admitted strike_range rw) rows)"
    using assms by simp
  then have "filter (\<lambda>rw. fst rw = k \<and> admitted strike_range rw) rows \<noteq> []"
    by (metis empty_iff empty_set)
  then show ?thesis by (simp add: last_quote_def)
qed

lemma last_quote_out_of_range:
  assumes "out_of_range strike_range k"
  shows "last_quote strike_range k rows = None"
proof -
  have "filter (\<lambda>rw. fst rw = k \<and> admitted strike_range rw) rows = []"
    using assms by (auto simp: filter_empty_conv admitted_def)
  then show ?thesis by (simp add: last_quote_def)
qed

lemma map_of_extract_quotes:
  assumes "filter (\<lambda>x. fst x = e) options_data = [(e, ch)]"
  shows "map_of (snd (snd (extract_quotes today options_data strike_range)))
           (\<lfloor>of_int e - today\<rfloor>, k) =
         (if 0 < \<lfloor>of_int e - today\<rfloor> then chain_quote strike_range k ch None else None)"
  using map_of_expiration [OF assms, of "\<lfloor>of_int e - today\<rfloor>" today strike_range "({}, [], [])" k]
  by (simp add: extract_quotes_def)

lemma extract_collision:
  "extract_quotes 100 collision_data None =
     ({100, 120}, [10], [((10, 100), Fin (1/4)), ((10, 120), Fin (3/10))])"
  by (auto simp: extract_quotes_def collision_data_def add_expiration_def add_row_def
      out_of_range_def Let_def)

lemma grid_node_through_key:
  fixes today options_data current_price strike_range
  defines "ex \<equiv> extract_quotes today options_data strike_range"
  defines "all_days \<equiv> sort (fst (snd ex))"
  defines "all_strikes \<equiv> sorted_list_of_set (fst ex)"
  defines "day_points \<equiv> min 50 (length all_days * 5)"
  assumes stored: "map_of (snd (snd ex)) (d, k) = Some v"
  shows "\<exists>D S Z. interpolate_volatility_surface today options_data current_price strike_range =
                   Inr (D, S, Z) \<and> length Z = 50 \<and>
           (\<forall>j<50. \<forall>i<day_points.
              is_nearest (\<lambda>x. \<bar>of_int x - D ! j ! i\<bar>) all_days d \<and>
              is_nearest (\<lambda>x. \<bar>x - S ! j ! i\<bar>) all_strikes k \<longrightarrow> Z ! j ! i = v)"
proof -
  define rng where "rng = (case strike_range of Some r \<Rightarrow> r
                    | None \<Rightarrow> (Min (set all_strikes), Max (set all_strikes)))"
  define strikes where "strikes = np_linspace (fst rng) (snd rng) 50"
  define days where "days = np_linspace (of_int (Min (set all_days))) (of_int (Max (set all_days)))
                    day_points"
  define Z where "Z = map (\<lambda>s. map (\<lambda>d. projr (node_value all_days all_strikes (snd (snd ex))
                                           current_price d s)) days) strikes"
  from stored have "snd (snd ex) \<noteq> []" by auto
  then have ne: "all_days \<noteq> []" "all_strikes \<noteq> []"
    using extract_quotes_nonempty [of today options_data strike_range]
    by (simp_all add: all_days_def all_strikes_def ex_def)
  have res: "interpolate_volatility_surface today options_data current_price strike_range =
           Inr (replicate 50 days, map (\<lambda>s. replicate (length days) s) strikes, Z)"
    using interpolate_grid [of today options_data strike_range current_price] ne
    unfolding ex_def all_days_def all_strikes_def rng_def day_points_def strikes_def days_def Z_def
    by simp
  have ld: "length days = day_points" by (simp add: days_def)
  have ls: "length strikes = 50" by (simp add: strikes_def)
  have node: "Z ! j ! i = v"
    if "j < 50" "i < day_points"
      "is_nearest (\<lambda>x. \<bar>of_int x - replicate 50 days ! j ! i\<bar>) all_days d"
      "is_nearest (\<lambda>x. \<bar>x - map (\<lambda>s. replicate (length days) s) strikes ! j ! i\<bar>) all_strikes k"
    for i j
  proof -
    from that have "is_nearest (\<lambda>x. \<bar>of_int x - days ! i\<bar>) all_days d"
      "is_nearest (\<lambda>x. \<bar>x - strikes ! j\<bar>) all_strikes k"
      by (simp_all add: ls ld)
    then have "py_min_key (\<lambda>x. \<bar>of_int x - days ! i\<bar>) all_days = Inr d"
      "py_min_key (\<lambda>x. \<bar>x - strikes ! j\<bar>) all_strikes = Inr k"
      by (simp_all add: is_nearest_py_min_key)
    then have "node_value all_days all_strikes (snd (snd ex)) current_price (days ! i) (strikes ! j)
                 = Inr v"
      using stored by (simp add: node_value_def)
    then show ?thesis
      using that(1,2) by (simp add: Z_def ls ld)
  qed
  have "length Z = 50" by (simp add: Z_def ls)
  with res node show ?thesis by blast
qed

lemma py_min_key_is_nearest:
  assumes "py_min_key key xs = Inr m"
  shows "is_nearest key xs m"
proof -
  from assms have "xs \<noteq> []" by auto
  from py_min_key_nearest [OF this, of key] assms show ?thesis by auto
qed

lemma collision_grid_axes:
  "\<exists>Z. interpolate_volatility_surface 100 collision_data 100 None =
         Inr (replicate 50 (replicate 5 10),
              map (\<lambda>s. replicate 5 s) (np_linspace 100 120 50), Z)"
  by (subst interpolate_grid) (simp_all add: extract_collision np_linspace_const)

text \<open>
  C10 (as stated). For every expiration whose call table and put table both hold a quote
  with the same key and a finite, positive implied volatility, the lookup table stores the
  put's implied volatility under that key. A row whose strike lies outside the caller's
  strike range is skipped before it is stored: with the strike range from 101 to 150 the
  expiration that quotes the strike 100 in both tables leaves nothing under the key. An
  expiration that is not in the future is skipped as a whole: read at noon of the
  expiration date, the same data leaves nothing under the key. When a later expiration key
  parses to the same date, its rows are stored under the same keys: the call of the second
  key replaces the put of the first.
\<close>

theorem put_quote_dropped:
  "(110, \<lparr>calls = [(100, Fin (1/5)), (120, Fin (3/10))], puts = [(100, Fin (1/4))]\<rparr>)
     \<in> set collision_data \<and>
   \<lfloor>of_int 110 - (100::real)\<rfloor> = 10 \<and>
   map_of (snd (snd (extract_quotes 100 collision_data (Some (101, 150))))) (10, 100) = None \<and>
   \<lfloor>of_int 110 - (221 / 2 :: real)\<rfloor> = - 1 \<and>
   map_of (snd (snd (extract_quotes (221 / 2) collision_data None))) (- 1, 100) = None \<and>
   (110, \<lparr>calls = [(100, Fin (1/5))], puts = [(100, Fin (1/4))]\<rparr>) \<in> set same_date_data \<and>
   map_of (snd (snd (extract_quotes 100 same_date_data None))) (10, 100) = Some (Fin (3/10))"
proof -
  have "\<lfloor>110 - (221 / 2 :: real)\<rfloor> = - 1"
    by (simp add: floor_eq_iff)
  then show ?thesis
    by (simp add: extract_quotes_def collision_data_def same_date_data_def add_expiration_def
        add_row_def out_of_range_def Let_def)
qed

text \<open>
  C10 (amended). Take an expiration whose call table and put table both hold a row with the
  strike \<open>k\<close> and a finite, positive implied volatility, and which is the only
  expiration key of the data that parses to its date. When the expiration lies at least one whole day
  ahead of the clock and \<open>k\<close> is inside the strike range, the lookup table holds under
  \<open>(days, k)\<close> the implied volatility of the last admitted put row with strike \<open>k\<close> (the
  put's own value when the put strikes are distinct), not the call's; the builder returns a
  grid, and every node of that grid whose nearest registered day and nearest observed strike
  form the key takes this value. Otherwise, when the expiration is not in the future or
  \<open>k\<close> is outside the strike range, nothing is stored under the key.
\<close>

theorem put_quote_wins:
  assumes e: "filter (\<lambda>x. fst x = e) options_data = [(e, ch)]"
    and call: "(k, Fin c) \<in> set (calls ch)" "0 < c"
    and put: "(k, Fin p) \<in> set (puts ch)" "0 < p"
  shows "let d = \<lfloor>of_int e - today\<rfloor>;
             ex = extract_quotes today options_data strike_range;
             iv_data = snd (snd ex);
             all_days = sort (fst (snd ex));
             all_strikes = sorted_list_of_set (fst ex);
             day_points = min 50 (length all_days * 5)
         in if 0 < d \<and> \<not> out_of_range strike_range k then
              \<exists>v. last_quote strike_range k (puts ch) = Some v \<and> (k, v) \<in> set (puts ch) \<and>
                  (distinct (map fst (puts ch)) \<longrightarrow> v = Fin p) \<and>
                  map_of iv_data (d, k) = Some v \<and>
                  (\<exists>D S Z.
                     interpolate_volatility_surface today options_data current_price strike_range =
                       Inr (D, S, Z) \<and> length Z = 50 \<and>
                     (\<forall>j<50. \<forall>i<day_points.
                        is_nearest (\<lambda>x. \<bar>of_int x - D ! j ! i\<bar>) all_days d \<and>
                        is_nearest (\<lambda>x. \<bar>x - S ! j ! i\<bar>) all_strikes k \<longrightarrow> Z ! j ! i = v))
            else map_of iv_data (d, k) = None"
proof -
  define d where "d = \<lfloor>of_int e - today\<rfloor>"
  define ex where "ex = extract_quotes today options_data strike_range"
  have tab: "map_of (snd (snd ex)) (d, k) =
               (if 0 < d then chain_quote strike_range k ch None else None)"
    unfolding d_def ex_def by (rule map_of_extract_quotes [OF e])
  show ?thesis
  proof (cases "0 < d \<and> \<not> out_of_range strike_range k")
    case False
    then have "map_of (snd (snd ex)) (d, k) = None"
      by (auto simp: tab chain_quote_def last_quote_out_of_range)
    with False show ?thesis
      unfolding Let_def d_def [symmetric] ex_def [symmetric] by simp
  next
    case True
    then have "admitted strike_range (k, Fin p)"
      using put(2) by (simp add: admitted_def)
    then have "last_quote strike_range k (puts ch) \<noteq> None"
      using put(1) by (intro last_quote_admitted)
    then obtain v where lq: "last_quote strike_range k (puts ch) = Some v" by blast
    then have mem: "(k, v) \<in> set (puts ch)"
      using last_quote_SomeD by blast
    have dist: "v = Fin p" if "distinct (map fst (puts ch))"
      using that mem put(1) by (rule eq_key_imp_eq_value)
    have stored: "map_of (snd (snd ex)) (d, k) = Some v"
      using True lq by (simp add: tab chain_quote_def)
    note grid = grid_node_through_key [of today options_data strike_range d k v current_price,
        folded ex_def, OF stored]
    from lq mem dist stored grid True show ?thesis
      unfolding Let_def d_def [symmetric] ex_def [symmetric] by simp
  qed
qed


theorem put_quote_wins_witness:
  "filter (\<lambda>x. fst x = 110) collision_data =
     [(110, \<lparr>calls = [(100, Fin (1/5)), (120, Fin (3/10))], puts = [(100, Fin (1/4))]\<rparr>)] \<and>
   (100, Fin (1/5)) \<in> set [(100, Fin (1/5)), (120, Fin (3/10))] \<and> (0::real) < 1/5 \<and>
   (100, Fin (1/4)) \<in> set [(100::real, Fin (1/4))] \<and> (0::real) < 1/4 \<and>
   last_quote None 100 [(100, Fin (1/4))] = Some (Fin (1/4)) \<and>
   map_of (snd (snd (extract_quotes 100 collision_data None))) (10, 100) = Some (Fin (1/4)) \<and>
   (\<exists>D S Z. interpolate_volatility_surface 100 collision_data 100 None = Inr (D, S, Z) \<and>
      D ! 0 ! 0 = 10 \<and> S ! 0 ! 0 = 100 \<and> Z ! 0 ! 0 = Fin (1/4)) \<and>
   map_of (snd (snd (extract_quotes 110 collision_data None))) (0, 100) = None"
proof -
  let ?ch = "\<lparr>calls = [(100, Fin (1/5)), (120, Fin (3/10))], puts = [(100::real, Fin (1/4))]\<rparr>"
  have h: "filter (\<lambda>x. fst x = 110) collision_data = [(110, ?ch)]"
    by (simp add: collision_data_def)
  have rows: "(100, Fin (1/5)) \<in> set (calls ?ch)" "(0::real) < 1/5"
    "(100, Fin (1/4)) \<in> set (puts ?ch)" "(0::real) < 1/4"
    by simp_all
  have r: "\<not> out_of_range None 100" by (simp add: out_of_range_def)
  have "\<exists>v. last_quote None 100 [(100, Fin (1/4))] = Some v \<and> v = Fin (1/4) \<and>
          map_of (snd (snd (extract_quotes 100 collision_data None))) (10, 100) = Some v \<and>
          (\<exists>D S Z. interpolate_volatility_surface 100 collision_data 100 None = Inr (D, S, Z) \<and>
             length Z = 50 \<and>
             (\<forall>j<50. \<forall>i<5.
                is_nearest (\<lambda>x. \<bar>of_int x - D ! j ! i\<bar>) [10] 10 \<and>
                is_nearest (\<lambda>x. \<bar>x - S ! j ! i\<bar>) [100, 120] 100 \<longrightarrow> Z ! j ! i = v))"
    using put_quote_wins [OF h rows, of 100 None 100] r
    unfolding Let_def extract_collision by simp
  then obtain D S Z where
    lq: "last_quote None 100 [(100, Fin (1/4))] = Some (Fin (1/4))" and
    st: "map_of (snd (snd (extract_quotes 100 collision_data None))) (10, 100) = Some (Fin (1/4))" and
    res: "interpolate_volatility_surface 100 collision_data 100 None = Inr (D, S, Z)" and
    nodes: "\<forall>j<50. \<forall>i<5.
                is_nearest (\<lambda>x. \<bar>of_int x - D ! j ! i\<bar>) [10] 10 \<and>
                is_nearest (\<lambda>x. \<bar>x - S ! j ! i\<bar>) [100, 120] 100 \<longrightarrow> Z ! j ! i = Fin (1/4)"
    by blast
  from collision_grid_axes res have
    "D = replicate 50 (replicate 5 10)" "S = map (\<lambda>s. replicate 5 s) (np_linspace 100 120 50)"
    by auto
  then have ax: "D ! 0 ! 0 = 10" "S ! 0 ! 0 = 100"
    by (simp_all add: np_linspace_first)
  have "is_nearest (\<lambda>x. \<bar>of_int x - D ! 0 ! 0\<bar>) [10] 10"
    "is_nearest (\<lambda>x. \<bar>x - S ! 0 ! 0\<bar>) [100, 120] 100"
    by (rule py_min_key_is_nearest, simp add: ax)+
  with nodes have z: "Z ! 0 ! 0 = Fin (1/4)"
    by simp
  have "map_of (snd (snd (extract_quotes 110 collision_data None))) (0, 100) = None"
    using put_quote_wins [OF h rows, of 110 None 100]
    unfolding Let_def by simp
  with h lq st res ax z show ?thesis
    by simp
qed

section \<open>The analytic put price is positive\<close>



section \<open>The binomial lattice\<close>

lemma length_backward_layer [simp]:
  "length (backward_layer american option_type S K u d disc p step V) = step + 1"
  by (simp add: backward_layer_def)






















end
